theory Spec2Isabelle
  imports Main "HOL-Library.Char_ord" "HOL-Library.List_Lexorder"
begin

section \<open>Link Indexer: the aggregation engine of \<open>src/main.ts\<close>\<close>

text \<open>
  A shallow embedding of the plugin's second (current) \<open>main.ts\<close>: the helpers
  \<open>cleanWikiLink\<close>, \<open>extractDisplayName\<close>, \<open>extractAlias\<close>, \<open>pathEqual\<close>,
  \<open>removeDots\<close>, and the methods \<open>setupCommands\<close>, \<open>isExcluded\<close>, \<open>grabLinks\<close> and
  \<open>generateAllUsedLinksIndex\<close>.

  A JavaScript string is a \<^typ>\<open>string\<close>: a list of code units, of which the model
  covers the range below 256.
\<close>

subsection \<open>String primitives of the language\<close>

text \<open>\<open>s.startsWith(p)\<close> and \<open>s.endsWith(p)\<close>.\<close>

fun startsWith :: "string \<Rightarrow> string \<Rightarrow> bool" where
  "startsWith s [] = True"
| "startsWith [] (p # ps) = False"
| "startsWith (c # cs) (p # ps) = (c = p \<and> startsWith cs ps)"

definition endsWith :: "string \<Rightarrow> string \<Rightarrow> bool" where
  "endsWith s p = startsWith (rev s) (rev p)"

text \<open>\<open>s.includes(c)\<close> for a one-character needle.\<close>

definition includesChar :: "string \<Rightarrow> char \<Rightarrow> bool" where
  "includesChar s c = (c \<in> set s)"

text \<open>
  \<open>s.split(c)\<close> for a one-character separator: every occurrence of the separator
  splits, so the result has one more part than the text has separators.
\<close>

fun split :: "char \<Rightarrow> string \<Rightarrow> string list" where
  "split sep [] = [[]]"
| "split sep (c # cs) =
     (if c = sep then [] # split sep cs
      else (case split sep cs of
              [] \<Rightarrow> [[c]]
            | p # ps \<Rightarrow> (c # p) # ps))"

text \<open>
  \<open>s.trim()\<close>: the white space and line terminators of the language below code unit
  256 (tab, line feed, vertical tab, form feed, carriage return, space, no-break space)
  are dropped at both ends.
\<close>

definition isWhiteSpace :: "char \<Rightarrow> bool" where
  "isWhiteSpace c =
     (c \<in> set [CHR 0x09, CHR 0x0A, CHR 0x0B, CHR 0x0C, CHR 0x0D, CHR 0x20, CHR 0xA0])"

definition trim :: "string \<Rightarrow> string" where
  "trim s = rev (dropWhile isWhiteSpace (rev (dropWhile isWhiteSpace s)))"

text \<open>
  \<open>s.toLowerCase()\<close>, which does not depend on the locale. Below code unit 256 the
  letters with a lower-case form are \<open>A\<close> to \<open>Z\<close> and the Latin-1 capitals \<open>0xC0\<close> to
  \<open>0xDE\<close> without the multiplication sign \<open>0xD7\<close>; each maps to the code unit 32
  above it, and every other code unit is kept.
\<close>

definition upperCaseUnits :: string where
  "upperCaseUnits =
     ''ABCDEFGHIJKLMNOPQRSTUVWXYZ''
     @ [
        CHR 0xC0, CHR 0xC1, CHR 0xC2, CHR 0xC3, CHR 0xC4, CHR 0xC5, CHR 0xC6, CHR 0xC7,
        CHR 0xC8, CHR 0xC9, CHR 0xCA, CHR 0xCB, CHR 0xCC, CHR 0xCD, CHR 0xCE, CHR 0xCF,
        CHR 0xD0, CHR 0xD1, CHR 0xD2, CHR 0xD3, CHR 0xD4, CHR 0xD5, CHR 0xD6, CHR 0xD8,
        CHR 0xD9, CHR 0xDA, CHR 0xDB, CHR 0xDC, CHR 0xDD, CHR 0xDE]"

definition lowerCaseUnits :: string where
  "lowerCaseUnits =
     ''abcdefghijklmnopqrstuvwxyz''
     @ [
        CHR 0xE0, CHR 0xE1, CHR 0xE2, CHR 0xE3, CHR 0xE4, CHR 0xE5, CHR 0xE6, CHR 0xE7,
        CHR 0xE8, CHR 0xE9, CHR 0xEA, CHR 0xEB, CHR 0xEC, CHR 0xED, CHR 0xEE, CHR 0xEF,
        CHR 0xF0, CHR 0xF1, CHR 0xF2, CHR 0xF3, CHR 0xF4, CHR 0xF5, CHR 0xF6, CHR 0xF8,
        CHR 0xF9, CHR 0xFA, CHR 0xFB, CHR 0xFC, CHR 0xFD, CHR 0xFE]"

definition lowerChar :: "char \<Rightarrow> char" where
  "lowerChar c =
     (case map_of (zip upperCaseUnits lowerCaseUnits) c of
        None \<Rightarrow> c
      | Some d \<Rightarrow> d)"

definition toLowerCase :: "string \<Rightarrow> string" where
  "toLowerCase s = map lowerChar s"

text \<open>
  \<open>s.replace(/p/, r)\<close> for a literal, non-empty pattern without the \<open>g\<close> flag: the
  first occurrence only. \<open>s.replace(/p/g, r)\<close> for a one-character pattern: all of them.
\<close>

fun replaceFirst :: "string \<Rightarrow> string \<Rightarrow> string \<Rightarrow> string" where
  "replaceFirst pat rep [] = []"
| "replaceFirst pat rep (c # cs) =
     (if startsWith (c # cs) pat then rep @ drop (length pat) (c # cs)
      else c # replaceFirst pat rep cs)"

definition replaceAllChar :: "char \<Rightarrow> char \<Rightarrow> string \<Rightarrow> string" where
  "replaceAllChar a b s = map (\<lambda>c. if c = a then b else c) s"

text \<open>\<open>s.replace(/^p/, '')\<close> and \<open>s.replace(/p$/, '')\<close> for a literal pattern.\<close>

definition stripPrefix :: "string \<Rightarrow> string \<Rightarrow> string" where
  "stripPrefix pat s = (if startsWith s pat then drop (length pat) s else s)"

definition stripSuffix :: "string \<Rightarrow> string \<Rightarrow> string" where
  "stripSuffix pat s = (if endsWith s pat then take (length s - length pat) s else s)"

subsection \<open>The reference parser\<close>

text \<open>\<open>cleanWikiLink\<close>: \<open>link.replace(/^\[\[/, '').replace(/\]\]$/, '')\<close>.\<close>

definition cleanWikiLink :: "string \<Rightarrow> string" where
  "cleanWikiLink link = stripSuffix '']]'' (stripPrefix ''[['' link)"

text \<open>
  The first lines that \<open>extractDisplayName\<close> and \<open>extractAlias\<close> share: the brackets
  are removed first, then one leading \<open>!\<close>.
\<close>

definition cleanLink :: "string \<Rightarrow> string" where
  "cleanLink link =
     (let c = cleanWikiLink link in if startsWith c ''!'' then drop 1 c else c)"

text \<open>
  \<open>extractDisplayName\<close>: the part before the first \<open>|\<close>, trimmed, when there is a
  \<open>|\<close>; the cleaned text as it is otherwise.
\<close>

definition extractDisplayName :: "string \<Rightarrow> string" where
  "extractDisplayName link =
     (let c = cleanLink link in
      if includesChar c CHR ''|'' then trim (hd (split CHR ''|'' c)) else c)"

text \<open>
  \<open>extractAlias\<close>: \<open>parts[1].trim()\<close> of \<open>cleanLink.split('|')\<close> when there is a
  \<open>|\<close> (the split then has at least two parts), \<open>null\<close> otherwise.
\<close>

definition extractAlias :: "string \<Rightarrow> string option" where
  "extractAlias link =
     (let c = cleanLink link in
      if includesChar c CHR ''|'' then
        (let parts = split CHR ''|'' c in
         if length parts > 1 then Some (trim (parts ! 1)) else None)
      else None)"

subsection \<open>Path equality\<close>

text \<open>
  \<open>removeDots\<close>: all backslashes become \<open>/\<close>, one leading \<open>./\<close> is removed, and the
  first \<open>/./\<close> becomes \<open>/\<close> (the third pattern has no \<open>g\<close> flag).
\<close>

definition removeDots :: "string \<Rightarrow> string" where
  "removeDots v =
     replaceFirst ''/./'' ''/'' (stripPrefix ''./'' (replaceAllChar CHR 0x5C CHR ''/'' v))"

text \<open>
  \<open>pathEqual\<close>; \<open>np\<close> is the host's \<open>normalizePath\<close>, which is not part of this
  repository.
\<close>

definition pathEqual :: "(string \<Rightarrow> string) \<Rightarrow> string \<Rightarrow> string \<Rightarrow> bool" where
  "pathEqual np a b = (if a = b then True else removeDots (np a) = removeDots (np b))"

subsection \<open>The data of the plugin and of its host\<close>

text \<open>
  \<open>TFile\<close> of the host: the two fields the plugin reads.
\<close>

record TFile =
  file_path :: string
  file_name :: string

text \<open>
  \<open>ReferenceCache\<close> of the host. The plugin tests \<open>!l.link\<close> and \<open>l.original || link\<close>,
  so both fields may be absent (\<open>None\<close>) or empty; an entry of the array may itself be
  absent (\<open>!l\<close>).
\<close>

record ReferenceCache =
  ref_link :: "string option"
  ref_original :: "string option"

record CachedMetadata =
  links :: "ReferenceCache option list option"
  embeds :: "ReferenceCache option list option"

record IndexNode =
  count :: nat
  link :: string
  originalLinks :: "string list"
  displayName :: string

text \<open>The class \<open>UsedLinks\<close>: a preset.\<close>

record UsedLinks =
  name :: string
  path :: string
  strictLineBreaks :: bool
  includeEmbeds :: bool
  linkToFiles :: bool
  nonexistentOnly :: bool
  sortAlphabetically :: bool
  excludeToFilenames :: "string list"
  excludeToGlobs :: "string list"
  excludeFromFilenames :: "string list"
  excludeFromGlobs :: "string list"

text \<open>
  What the code can throw, each with its \<open>error.message\<close>: the two kinds of error of
  the language that occur, and whatever the host's store raises.
\<close>

datatype JsError = SyntaxError string | TypeError string | HostError string

fun message :: "JsError \<Rightarrow> string" where
  "message (SyntaxError m) = m"
| "message (TypeError m) = m"
| "message (HostError m) = m"

text \<open>The error of \<open>x.push(t)\<close> when \<open>x\<close> is \<open>undefined\<close>.\<close>

definition pushOfUndefined :: JsError where
  "pushOfUndefined = TypeError ''Cannot read properties of undefined (reading 'push')''"

text \<open>
  A method leaves either by returning or by throwing; the object it mutates in place
  is in the state it had at that moment in both cases.
\<close>

datatype 'a outcome = Returned 'a | Thrown JsError 'a

text \<open>
  The functions of the host application and of the two libraries that the plugin calls
  while it scans. None of them is part of the repository, so each is a parameter:
  \<^item> \<open>normalizePath\<close>, \<open>getLinkpath\<close> of the host API;
  \<^item> \<open>metadataCache.getFirstLinkpathDest(link, sourcePath)\<close>, \<open>null\<close> is \<open>None\<close>;
  \<^item> \<open>metadataCache.fileToLinktext(file, sourcePath, true)\<close>;
  \<^item> \<open>new RegExp(p).test(s)\<close>, \<open>None\<close> when the pattern does not compile
    (a \<open>SyntaxError\<close>);
  \<^item> \<open>picomatch.isMatch(s, globs)\<close>, \<open>None\<close> when the library throws
    (a \<open>TypeError\<close>);
  \<^item> \<open>a.localeCompare(b)\<close>, which depends on the locale of the host;
  \<^item> \<open>vault.getMarkdownFiles()\<close> and \<open>metadataCache.getFileCache(f)\<close>.
\<close>

record Host =
  normalizePath :: "string \<Rightarrow> string"
  getLinkpath :: "string \<Rightarrow> string"
  getFirstLinkpathDest :: "string \<Rightarrow> string \<Rightarrow> TFile option"
  fileToLinktext :: "TFile \<Rightarrow> string \<Rightarrow> string"
  regExpTest :: "string \<Rightarrow> string \<Rightarrow> bool option"
  picomatchIsMatch :: "string \<Rightarrow> string list \<Rightarrow> bool option"
  localeCompare :: "string \<Rightarrow> string \<Rightarrow> int"
  getMarkdownFiles :: "TFile list"
  getFileCache :: "TFile \<Rightarrow> CachedMetadata option"

text \<open>
  The file store of the host, over any type \<open>'w\<close> of store states:
  \<open>vault.adapter.exists\<close>, \<open>vault.adapter.write\<close>, \<open>vault.createFolder\<close> and
  \<open>vault.create\<close>. Each may throw.
\<close>

record 'w FileStore =
  adapterExists :: "'w \<Rightarrow> string \<Rightarrow> JsError + bool"
  adapterWrite :: "'w \<Rightarrow> string \<Rightarrow> string \<Rightarrow> JsError + 'w"
  createFolder :: "'w \<Rightarrow> string \<Rightarrow> JsError + 'w"
  vaultCreate :: "'w \<Rightarrow> string \<Rightarrow> string \<Rightarrow> JsError + 'w"

text \<open>
  What a run can change outside the plugin: the store, and the notices shown to the
  user (\<open>new Notice(text)\<close>), oldest first. Console logging is not modelled.
\<close>

record 'w World =
  store :: 'w
  notices :: "string list"

subsection \<open>The aggregation map\<close>

text \<open>
  \<open>uniqueLinks\<close> is a plain object (\<open>{}\<close>) used as a map from strings to nodes. The
  model keeps its own properties in the order of their creation, each key once.
\<close>

type_synonym LinkMap = "(string \<times> IndexNode) list"

text \<open>
  An object literal inherits from \<open>Object.prototype\<close>: \<open>uniqueLinks[k]\<close> is also
  truthy when \<open>k\<close> names an inherited property. The keys are lower-cased, and the only
  properties of \<open>Object.prototype\<close> with a name without capitals are these two.
\<close>

definition inheritedKeys :: "string list" where
  "inheritedKeys = [''constructor'', ''__proto__'']"

text \<open>\<open>uniqueLinks[k].count += 1; uniqueLinks[k].originalLinks.push(t)\<close> on an own key.\<close>

fun bump :: "string \<Rightarrow> string \<Rightarrow> LinkMap \<Rightarrow> LinkMap" where
  "bump k t [] = []"
| "bump k t ((k', n) # m) =
     (if k' = k
      then (k', n\<lparr>count := count n + 1, originalLinks := originalLinks n @ [t]\<rparr>) # m
      else (k', n) # bump k t m)"

text \<open>
  The order in which \<open>Object.entries\<close> lists the own properties: the keys that are
  array indices (canonical decimal numerals below \<open>2^32 - 1\<close>) first, in ascending
  numeric order, then every other key in the order of creation.
\<close>

definition isDigit :: "char \<Rightarrow> bool" where
  "isDigit c = (c \<in> set ''0123456789'')"

definition digitValue :: "char \<Rightarrow> nat" where
  "digitValue c = of_char c - 48"

definition numericValue :: "string \<Rightarrow> nat" where
  "numericValue s = foldl (\<lambda>acc c. 10 * acc + digitValue c) 0 s"

definition isArrayIndex :: "string \<Rightarrow> bool" where
  "isArrayIndex s =
     (s \<noteq> [] \<and> list_all isDigit s \<and> (s = ''0'' \<or> hd s \<noteq> CHR ''0'')
      \<and> numericValue s < 4294967295)"

definition Object_entries :: "LinkMap \<Rightarrow> (string \<times> IndexNode) list" where
  "Object_entries m =
     sort_key (\<lambda>e. numericValue (fst e)) (filter (\<lambda>e. isArrayIndex (fst e)) m)
     @ filter (\<lambda>e. \<not> isArrayIndex (fst e)) m"

subsection \<open>The path filter\<close>

text \<open>
  \<open>setupCommands\<close>, the part that fills \<open>globalExcludes\<close>: the output path of every
  preset, with \<open>.md\<close> appended when it is missing, then normalised.
\<close>

definition withMd :: "string \<Rightarrow> string" where
  "withMd p = (if endsWith p ''.md'' then p else p @ ''.md'')"

definition setupCommands :: "Host \<Rightarrow> UsedLinks list \<Rightarrow> string list" where
  "setupCommands h usedLinks = map (\<lambda>r. normalizePath h (withMd (path r))) usedLinks"

text \<open>
  \<open>filenamePatterns.some((p) => new RegExp(p).test(f.name))\<close>: the patterns are tried
  in order up to the first that matches; one that does not compile throws.
\<close>

fun someRegExp :: "Host \<Rightarrow> string list \<Rightarrow> string \<Rightarrow> JsError + bool" where
  "someRegExp h [] s = Inr False"
| "someRegExp h (p # ps) s =
     (case regExpTest h p s of
        None \<Rightarrow> Inl (SyntaxError ''Invalid regular expression'')
      | Some True \<Rightarrow> Inr True
      | Some False \<Rightarrow> someRegExp h ps s)"

text \<open>\<open>isExcluded\<close>: the three tests are all evaluated, in this order, then or-ed.\<close>

definition isExcluded ::
  "Host \<Rightarrow> string list \<Rightarrow> TFile \<Rightarrow> string list \<Rightarrow> string list \<Rightarrow> JsError + bool" where
  "isExcluded h globalExcludes f filenamePatterns globPatterns =
     (let isGloballyExcluded =
            list_ex (\<lambda>g. pathEqual (normalizePath h) g (file_path f)) globalExcludes
      in case someRegExp h filenamePatterns (file_name f) of
           Inl e \<Rightarrow> Inl e
         | Inr isFilenameExcluded \<Rightarrow>
             (case picomatchIsMatch h (file_path f) globPatterns of
                None \<Rightarrow> Inl (TypeError ''Expected pattern to be a non-empty string'')
              | Some isGlobExcluded \<Rightarrow>
                  Inr (isGloballyExcluded \<or> isFilenameExcluded \<or> isGlobExcluded)))"

subsection \<open>The link aggregator\<close>

text \<open>
  The body of the callback of \<open>links.forEach\<close> in \<open>grabLinks\<close>, for one element \<open>l\<close>
  of the array. In the order of the code:
  \<^item> an absent element, or one whose \<open>link\<close> is absent or empty, returns at once;
  \<^item> a resolved target is dropped when \<open>nonexistentOnly\<close> is set or \<open>isExcluded\<close>
    says so (\<open>isExcluded\<close> is not called when \<open>nonexistentOnly\<close> is set);
  \<^item> \<open>uniqueLinks[normalizedOrigin]\<close> is truthy for an own key, whose node is then
    updated, and for an inherited key, where \<open>.count += 1\<close> writes to the inherited
    object and \<open>.originalLinks.push\<close> throws a \<open>TypeError\<close>, the map being as before;
  \<^item> any other key gets a new node.
\<close>

definition grabLink ::
  "Host \<Rightarrow> string list \<Rightarrow> UsedLinks \<Rightarrow> TFile \<Rightarrow> LinkMap \<Rightarrow> ReferenceCache option
   \<Rightarrow> LinkMap outcome" where
  "grabLink h globalExcludes preset f uniqueLinks l =
     (case l of
        None \<Rightarrow> Returned uniqueLinks
      | Some r \<Rightarrow>
        (case ref_link r of
           None \<Rightarrow> Returned uniqueLinks
         | Some raw \<Rightarrow>
           if raw = [] then Returned uniqueLinks
           else
             let lnk = getLinkpath h raw;
                 originFile = getFirstLinkpathDest h lnk (file_path f)
             in (case (case originFile of
                         None \<Rightarrow> Inr False
                       | Some t \<Rightarrow>
                           if nonexistentOnly preset then Inr True
                           else isExcluded h globalExcludes t
                                  (excludeToFilenames preset) (excludeToGlobs preset)) of
                  Inl e \<Rightarrow> Thrown e uniqueLinks
                | Inr True \<Rightarrow> Returned uniqueLinks
                | Inr False \<Rightarrow>
                    let origin = (case originFile of None \<Rightarrow> lnk | Some t \<Rightarrow> file_path t);
                        normalizedOrigin = toLowerCase origin;
                        originalLinkText =
                          (case ref_original r of
                             None \<Rightarrow> lnk
                           | Some t \<Rightarrow> if t = [] then lnk else t);
                        dName = extractDisplayName originalLinkText
                    in if normalizedOrigin \<in> fst ` set uniqueLinks then
                         Returned (bump normalizedOrigin originalLinkText uniqueLinks)
                       else if normalizedOrigin \<in> set inheritedKeys then
                         Thrown pushOfUndefined uniqueLinks
                       else
                         let rawLink =
                               (case originFile of
                                  None \<Rightarrow> lnk
                                | Some t \<Rightarrow> fileToLinktext h t (path preset))
                         in Returned (uniqueLinks @
                              [(normalizedOrigin,
                                \<lparr>count = 1,
                                 link = (if linkToFiles preset then ''[['' @ rawLink @ '']]''
                                         else rawLink),
                                 originalLinks = [originalLinkText],
                                 displayName = dName\<rparr>)]))))"

text \<open>\<open>links.forEach\<close>: an exception of the callback ends the loop.\<close>

fun forEachLink ::
  "Host \<Rightarrow> string list \<Rightarrow> UsedLinks \<Rightarrow> TFile \<Rightarrow> LinkMap \<Rightarrow> ReferenceCache option list
   \<Rightarrow> LinkMap outcome" where
  "forEachLink h ge preset f m [] = Returned m"
| "forEachLink h ge preset f m (l # ls) =
     (case grabLink h ge preset f m l of
        Returned m' \<Rightarrow> forEachLink h ge preset f m' ls
      | Thrown e m' \<Rightarrow> Thrown e m')"

text \<open>\<open>grabLinks\<close>: \<open>if (!links || !links.length) return;\<close>, then the loop.\<close>

definition grabLinks ::
  "Host \<Rightarrow> string list \<Rightarrow> UsedLinks \<Rightarrow> LinkMap \<Rightarrow> TFile \<Rightarrow> ReferenceCache option list option
   \<Rightarrow> LinkMap outcome" where
  "grabLinks h ge preset uniqueLinks f lks =
     (case lks of
        None \<Rightarrow> Returned uniqueLinks
      | Some ls \<Rightarrow>
          if length ls = 0 then Returned uniqueLinks
          else forEachLink h ge preset f uniqueLinks ls)"

text \<open>
  The state of the loop over the files in \<open>generateAllUsedLinksIndex\<close>: the map and the
  three counters.
\<close>

record ScanState =
  uniqueLinks :: LinkMap
  processedCount :: nat
  skippedCount :: nat
  errorCount :: nat

definition skipped :: "ScanState \<Rightarrow> ScanState" where
  "skipped st = st\<lparr>skippedCount := skippedCount st + 1\<rparr>"

definition failed :: "LinkMap \<Rightarrow> ScanState \<Rightarrow> ScanState" where
  "failed m st = st\<lparr>uniqueLinks := m, errorCount := errorCount st + 1\<rparr>"

text \<open>
  The body of \<open>for (const f of files)\<close>, which is one \<open>try\<close> block: whatever is thrown
  in it is caught, counted, and the loop goes on with the next file.
\<close>

definition processFile ::
  "Host \<Rightarrow> string list \<Rightarrow> UsedLinks \<Rightarrow> string \<Rightarrow> ScanState \<Rightarrow> TFile \<Rightarrow> ScanState" where
  "processFile h ge preset outputPath st f =
     (if file_path f = outputPath then skipped st
      else
        case isExcluded h ge f (excludeFromFilenames preset) (excludeFromGlobs preset) of
          Inl e \<Rightarrow> failed (uniqueLinks st) st
        | Inr True \<Rightarrow> skipped st
        | Inr False \<Rightarrow>
          (case getFileCache h f of
             None \<Rightarrow> skipped st
           | Some fileCache \<Rightarrow>
             (case (if links fileCache \<noteq> None
                    then grabLinks h ge preset (uniqueLinks st) f (links fileCache)
                    else Returned (uniqueLinks st)) of
                Thrown e m \<Rightarrow> failed m st
              | Returned m \<Rightarrow>
                (case (if includeEmbeds preset \<and> embeds fileCache \<noteq> None
                       then grabLinks h ge preset m f (embeds fileCache)
                       else Returned m) of
                   Thrown e m' \<Rightarrow> failed m' st
                 | Returned m' \<Rightarrow>
                     st\<lparr>uniqueLinks := m', processedCount := processedCount st + 1\<rparr>))))"

definition outputPathOf :: "Host \<Rightarrow> UsedLinks \<Rightarrow> string" where
  "outputPathOf h preset = normalizePath h (withMd (path preset))"

definition initialScan :: ScanState where
  "initialScan = \<lparr>uniqueLinks = [], processedCount = 0, skippedCount = 0, errorCount = 0\<rparr>"

text \<open>The whole loop, from the empty map, over the files as the host lists them.\<close>

definition scanFiles :: "Host \<Rightarrow> string list \<Rightarrow> UsedLinks \<Rightarrow> ScanState" where
  "scanFiles h ge preset =
     foldl (processFile h ge preset (outputPathOf h preset)) initialScan (getMarkdownFiles h)"

subsection \<open>What the callback decides before it reads the map\<close>

text \<open>
  The lines of the callback of \<open>grabLinks\<close> up to the test of
  \<open>uniqueLinks[normalizedOrigin]\<close> do not depend on the map. \<open>verdict\<close> is their
  outcome for a reference \<open>l\<close> of the file \<open>f\<close>: the reference is ignored (absent,
  empty, or a resolved target that is filtered out), or the filter raises, or the
  reference is admitted with its key, its original text, the node that a new key would
  get, and the resolved target if there is one.
\<close>

datatype verdict = Ignored | Raises JsError | Admitted string string IndexNode "TFile option"

definition verdict ::
  "Host \<Rightarrow> string list \<Rightarrow> UsedLinks \<Rightarrow> TFile \<Rightarrow> ReferenceCache option \<Rightarrow> verdict" where
  "verdict h globalExcludes preset f l =
     (case l of
        None \<Rightarrow> Ignored
      | Some r \<Rightarrow>
        (case ref_link r of
           None \<Rightarrow> Ignored
         | Some raw \<Rightarrow>
           if raw = [] then Ignored
           else
             let lnk = getLinkpath h raw;
                 originFile = getFirstLinkpathDest h lnk (file_path f)
             in (case (case originFile of
                         None \<Rightarrow> Inr False
                       | Some t \<Rightarrow>
                           if nonexistentOnly preset then Inr True
                           else isExcluded h globalExcludes t
                                  (excludeToFilenames preset) (excludeToGlobs preset)) of
                  Inl e \<Rightarrow> Raises e
                | Inr True \<Rightarrow> Ignored
                | Inr False \<Rightarrow>
                    let origin = (case originFile of None \<Rightarrow> lnk | Some t \<Rightarrow> file_path t);
                        originalLinkText =
                          (case ref_original r of
                             None \<Rightarrow> lnk
                           | Some t \<Rightarrow> if t = [] then lnk else t);
                        rawLink =
                          (case originFile of
                             None \<Rightarrow> lnk
                           | Some t \<Rightarrow> fileToLinktext h t (path preset))
                    in Admitted (toLowerCase origin) originalLinkText
                         \<lparr>count = 1,
                          link = (if linkToFiles preset then ''[['' @ rawLink @ '']]''
                                  else rawLink),
                          originalLinks = [originalLinkText],
                          displayName = extractDisplayName originalLinkText\<rparr>
                         originFile)))"

fun keyOf :: "verdict \<Rightarrow> string option" where
  "keyOf (Admitted k t n tgt) = Some k"
| "keyOf v = None"

text \<open>The object as a method leaves it, whether it returns or throws.\<close>

fun stateAfter :: "'a outcome \<Rightarrow> 'a" where
  "stateAfter (Returned s) = s"
| "stateAfter (Thrown e s) = s"

text \<open>
  The references that the loop over the files hands to \<open>grabLinks\<close> for a file that
  it does not skip: its links, then its embeds when the preset includes them; and the
  files that are not skipped before their cache is read.
\<close>

definition referencesOf :: "Host \<Rightarrow> UsedLinks \<Rightarrow> TFile \<Rightarrow> ReferenceCache option list" where
  "referencesOf h preset f =
     (case getFileCache h f of
        None \<Rightarrow> []
      | Some fileCache \<Rightarrow>
          (case links fileCache of None \<Rightarrow> [] | Some ls \<Rightarrow> ls)
          @ (if includeEmbeds preset
             then (case embeds fileCache of None \<Rightarrow> [] | Some es \<Rightarrow> es)
             else []))"

definition scanned :: "Host \<Rightarrow> string list \<Rightarrow> UsedLinks \<Rightarrow> TFile \<Rightarrow> bool" where
  "scanned h ge preset f \<longleftrightarrow>
     file_path f \<noteq> outputPathOf h preset
     \<and> isExcluded h ge f (excludeFromFilenames preset) (excludeFromGlobs preset) = Inr False"

definition occurrences ::
  "Host \<Rightarrow> string list \<Rightarrow> UsedLinks \<Rightarrow> (TFile \<times> ReferenceCache option) list" where
  "occurrences h ge preset =
     concat (map (\<lambda>f. map (\<lambda>l. (f, l)) (referencesOf h preset f))
               (filter (scanned h ge preset) (getMarkdownFiles h)))"

text \<open>The count stored for a key, 0 when the map has no such key.\<close>

definition countOf :: "LinkMap \<Rightarrow> string \<Rightarrow> nat" where
  "countOf m k = (case map_of m k of None \<Rightarrow> 0 | Some n \<Rightarrow> count n)"

text \<open>
  The occurrences of a list of files, file by file; \<open>tally\<close> counts those with a
  given key; \<open>agrees\<close> says that a map has each key once, has exactly the keys of the
  admitted occurrences of a list, and counts each as often as it occurs there.
\<close>

definition occurrencesIn ::
  "Host \<Rightarrow> string list \<Rightarrow> UsedLinks \<Rightarrow> TFile list \<Rightarrow> (TFile \<times> ReferenceCache option) list" where
  "occurrencesIn h ge preset fs =
     concat (map (\<lambda>f. map (\<lambda>l. (f, l)) (referencesOf h preset f))
               (filter (scanned h ge preset) fs))"

definition tally ::
  "Host \<Rightarrow> string list \<Rightarrow> UsedLinks \<Rightarrow> (TFile \<times> ReferenceCache option) list \<Rightarrow> string \<Rightarrow> nat" where
  "tally h ge preset occs k =
     length (filter (\<lambda>(f, l). keyOf (verdict h ge preset f l) = Some k) occs)"

definition agrees ::
  "Host \<Rightarrow> string list \<Rightarrow> UsedLinks \<Rightarrow> LinkMap \<Rightarrow> (TFile \<times> ReferenceCache option) list \<Rightarrow> bool" where
  "agrees h ge preset m occs \<longleftrightarrow>
     distinct (map fst m)
     \<and> fst ` set m = {k. 0 < tally h ge preset occs k}
     \<and> (\<forall>k. countOf m k = tally h ge preset occs k)"

text \<open>
  Where the texts stored in a map come from: \<open>provenance Q m\<close> says that every node of
  \<open>m\<close> counts its stored texts, and that \<open>Q k t\<close> holds of every text \<open>t\<close> stored under a
  key \<open>k\<close>. \<open>globallyExcluded\<close> is the first test of \<open>isExcluded\<close>: the path is
  \<open>pathEqual\<close> to an entry of \<open>globalExcludes\<close>. \<open>admittedFrom\<close> is the \<open>Q\<close> of a run: some
  reference of some listed file, whose path is neither the output path nor globally
  excluded, is admitted with this key and text, and its target, if it resolves, is not
  globally excluded.
\<close>

definition provenance :: "(string \<Rightarrow> string \<Rightarrow> bool) \<Rightarrow> LinkMap \<Rightarrow> bool" where
  "provenance Q m \<longleftrightarrow>
     (\<forall>(k, n) \<in> set m. count n = length (originalLinks n)
        \<and> (\<forall>t \<in> set (originalLinks n). Q k t))"

definition globallyExcluded :: "Host \<Rightarrow> string list \<Rightarrow> string \<Rightarrow> bool" where
  "globallyExcluded h globalExcludes x =
     list_ex (\<lambda>g. pathEqual (normalizePath h) g x) globalExcludes"

definition admittedFrom ::
  "Host \<Rightarrow> string list \<Rightarrow> UsedLinks \<Rightarrow> string \<Rightarrow> string \<Rightarrow> bool" where
  "admittedFrom h ge preset k t \<longleftrightarrow>
     (\<exists>f \<in> set (getMarkdownFiles h). \<exists>l \<in> set (referencesOf h preset f). \<exists>n tgt.
        file_path f \<noteq> outputPathOf h preset
        \<and> \<not> globallyExcluded h ge (file_path f)
        \<and> verdict h ge preset f l = Admitted k t n tgt
        \<and> (case tgt of None \<Rightarrow> True | Some tf \<Rightarrow> \<not> globallyExcluded h ge (file_path tf)))"

subsection \<open>The report renderer\<close>

text \<open>
  \<open>Array.prototype.sort(cmp)\<close>: the sort of the language is stable, and with a
  consistent comparator its result is determined; it is modelled as the stable
  insertion sort, where \<open>cmp a b \<le> 0\<close> keeps \<open>a\<close> before \<open>b\<close>.
\<close>

fun insertBy :: "('a \<Rightarrow> 'a \<Rightarrow> int) \<Rightarrow> 'a \<Rightarrow> 'a list \<Rightarrow> 'a list" where
  "insertBy cmp x [] = [x]"
| "insertBy cmp x (y # ys) = (if cmp x y \<le> 0 then x # y # ys else y # insertBy cmp x ys)"

definition Array_sort :: "('a \<Rightarrow> 'a \<Rightarrow> int) \<Rightarrow> 'a list \<Rightarrow> 'a list" where
  "Array_sort cmp xs = foldr (insertBy cmp) xs []"

text \<open>
  The language defines the result of \<open>sort\<close> only for a consistent comparator; these
  are the conditions used below, with \<open>c a b = 0\<close> a tie.
\<close>

definition consistentComparator :: "('a \<Rightarrow> 'a \<Rightarrow> int) \<Rightarrow> bool" where
  "consistentComparator c \<longleftrightarrow>
     (\<forall>a b. c a b = 0 \<longrightarrow> c b a = 0)
     \<and> (\<forall>a b d. c a b = 0 \<and> c b d = 0 \<longrightarrow> c a d = 0)
     \<and> (\<forall>a b. 0 < c a b \<longrightarrow> c b a < 0)
     \<and> (\<forall>a b d. c a b \<le> 0 \<and> c b d \<le> 0 \<longrightarrow> c a d \<le> 0)"

text \<open>The two comparators of \<open>generateAllUsedLinksIndex\<close>.\<close>

definition byDisplayName :: "Host \<Rightarrow> string \<times> IndexNode \<Rightarrow> string \<times> IndexNode \<Rightarrow> int" where
  "byDisplayName h a b =
     localeCompare h (toLowerCase (displayName (snd a))) (toLowerCase (displayName (snd b)))"

definition byCount :: "string \<times> IndexNode \<Rightarrow> string \<times> IndexNode \<Rightarrow> int" where
  "byCount a b = int (count (snd b)) - int (count (snd a))"

definition sortedLinks :: "Host \<Rightarrow> UsedLinks \<Rightarrow> LinkMap \<Rightarrow> (string \<times> IndexNode) list" where
  "sortedLinks h preset m =
     (if sortAlphabetically preset then Array_sort (byDisplayName h) (Object_entries m)
      else Array_sort byCount (Object_entries m))"

text \<open>
  The connected terms of a row: a \<open>Set\<close>, which keeps the order of first insertion,
  filled by a loop over the stored link texts (\<open>addAlias\<close> is its body);
  \<open>alias && alias !== mainLink\<close> lets neither \<open>null\<close> nor the empty string nor the
  display name in.
\<close>

definition Set_add :: "string list \<Rightarrow> string \<Rightarrow> string list" where
  "Set_add s a = (if a \<in> set s then s else s @ [a])"

definition addAlias :: "string \<Rightarrow> string list \<Rightarrow> string \<Rightarrow> string list" where
  "addAlias mainLink s linkText =
     (case extractAlias linkText of
        None \<Rightarrow> s
      | Some alias \<Rightarrow>
          if alias \<noteq> [] \<and> alias \<noteq> mainLink then Set_add s alias else s)"

definition connectedTerms :: "IndexNode \<Rightarrow> string list" where
  "connectedTerms node = foldl (addAlias (displayName node)) [] (originalLinks node)"

text \<open>\<open>parts.join(sep)\<close> and the decimal numeral of a count.\<close>

fun join :: "string \<Rightarrow> string list \<Rightarrow> string" where
  "join sep [] = []"
| "join sep [x] = x"
| "join sep (x # y # ys) = x @ sep @ join sep (y # ys)"

function numberToString :: "nat \<Rightarrow> string" where
  "numberToString n =
     (if n < 10 then [''0123456789'' ! n]
      else numberToString (n div 10) @ [''0123456789'' ! (n mod 10)])"
  by pat_completeness auto
termination
  by (relation "measure (\<lambda>n. n)") auto

definition renderRow :: "IndexNode \<Rightarrow> string" where
  "renderRow node =
     ''| '' @ numberToString (count node) @ '' | '' @ link node @ '' | ''
     @ join '', '' (connectedTerms node) @ '' |'' @ [CHR 0x0A]"

definition tableHeader :: string where
  "tableHeader =
     ''| Count | Link | Connected Terms |'' @ [CHR 0x0A]
     @ ''|-------|------|----------------|'' @ [CHR 0x0A]"

definition renderTable :: "(string \<times> IndexNode) list \<Rightarrow> string" where
  "renderTable rows = tableHeader @ concat (map (\<lambda>e. renderRow (snd e)) rows)"

subsection \<open>Writing the report\<close>

text \<open>\<open>outputPath.substring(0, outputPath.lastIndexOf('/'))\<close>; empty without a \<open>/\<close>.\<close>

definition dirPathOf :: "string \<Rightarrow> string" where
  "dirPathOf p = rev (drop 1 (dropWhile (\<lambda>c. c \<noteq> CHR ''/'') (rev p)))"

definition notify :: "string \<Rightarrow> 'w World \<Rightarrow> 'w World" where
  "notify t w = w\<lparr>notices := notices w @ [t]\<rparr>"

text \<open>The last statement of the inner \<open>try\<close>: \<open>adapter.exists(outputPath)\<close> once more.\<close>

definition finalCheck :: "'w FileStore \<Rightarrow> string \<Rightarrow> 'w World \<Rightarrow> 'w World outcome" where
  "finalCheck fs outputPath w =
     (case adapterExists fs (store w) outputPath of
        Inl e \<Rightarrow> Thrown e w
      | Inr b \<Rightarrow> Returned w)"

text \<open>The directory of a new file is created when it is missing.\<close>

definition ensureDirectory :: "'w FileStore \<Rightarrow> string \<Rightarrow> 'w World \<Rightarrow> 'w World outcome" where
  "ensureDirectory fs outputPath w =
     (let dirPath = dirPathOf outputPath in
      if dirPath \<noteq> [] \<and> dirPath \<noteq> outputPath then
        (case adapterExists fs (store w) dirPath of
           Inl e \<Rightarrow> Thrown e w
         | Inr True \<Rightarrow> Returned w
         | Inr False \<Rightarrow>
             (case createFolder fs (store w) dirPath of
                Inl e \<Rightarrow> Thrown e (notify (''Error: Could not create directory '' @ dirPath) w)
              | Inr s \<Rightarrow> Returned (w\<lparr>store := s\<rparr>)))
      else Returned w)"

text \<open>The inner \<open>try\<close> block; \<open>n\<close> is \<open>Object.keys(uniqueLinks).length\<close>.\<close>

definition writeIndex ::
  "'w FileStore \<Rightarrow> string \<Rightarrow> string \<Rightarrow> nat \<Rightarrow> 'w World \<Rightarrow> 'w World outcome" where
  "writeIndex fs outputPath content n w =
     (case adapterExists fs (store w) outputPath of
        Inl e \<Rightarrow> Thrown e w
      | Inr True \<Rightarrow>
          (case adapterWrite fs (store w) outputPath content of
             Inl e \<Rightarrow> Thrown e w
           | Inr s \<Rightarrow>
               finalCheck fs outputPath
                 (notify (''Link Indexer (PNX): Updated index at '' @ outputPath @ '' with ''
                          @ numberToString n @ '' unique links'') (w\<lparr>store := s\<rparr>)))
      | Inr False \<Rightarrow>
          (case ensureDirectory fs outputPath w of
             Thrown e w' \<Rightarrow> Thrown e w'
           | Returned w' \<Rightarrow>
               (case vaultCreate fs (store w') outputPath content of
                  Inl e \<Rightarrow> Thrown e w'
                | Inr s \<Rightarrow>
                    finalCheck fs outputPath
                      (notify (''Link Indexer (PNX): Created new index at '' @ outputPath
                               @ '' with '' @ numberToString n @ '' unique links'')
                         (w'\<lparr>store := s\<rparr>)))))"

subsection \<open>The command\<close>

text \<open>\<open>getPresetByName\<close>: \<open>presets.find((r) => r.name === name)\<close>.\<close>

definition getPresetByName :: "UsedLinks list \<Rightarrow> string \<Rightarrow> UsedLinks option" where
  "getPresetByName presets nm = find (\<lambda>r. name r = nm) presets"

text \<open>
  \<open>generateAllUsedLinksIndex(preset)\<close>, where \<open>undefined\<close> is \<open>None\<close>. The scan, the
  sort and the rendering cannot throw; what the inner \<open>try\<close> throws is reported by its
  own \<open>catch\<close>, rethrown, and reported again by the outer one.
\<close>

definition generateAllUsedLinksIndex ::
  "Host \<Rightarrow> 'w FileStore \<Rightarrow> string list \<Rightarrow> UsedLinks option \<Rightarrow> 'w World \<Rightarrow> 'w World" where
  "generateAllUsedLinksIndex h fs globalExcludes presetOpt w =
     (case presetOpt of
        None \<Rightarrow> notify ''Preset not found. Try reloading Obsidian.'' w
      | Some preset \<Rightarrow>
          let m = uniqueLinks (scanFiles h globalExcludes preset);
              content = renderTable (sortedLinks h preset m);
              outputPath = withMd (outputPathOf h preset)
          in (case writeIndex fs outputPath content (length m) w of
                Returned w' \<Rightarrow> w'
              | Thrown e w' \<Rightarrow>
                  notify (''Error generating index: '' @ message e)
                    (notify (''Error writing to file: '' @ message e) w')))"

text \<open>
  The callback that \<open>setupCommands\<close> registers for a preset name, run on the settings
  for which \<open>setupCommands\<close> was last called.
\<close>

definition runCommand ::
  "Host \<Rightarrow> 'w FileStore \<Rightarrow> UsedLinks list \<Rightarrow> string \<Rightarrow> 'w World \<Rightarrow> 'w World" where
  "runCommand h fs usedLinks nm w =
     generateAllUsedLinksIndex h fs (setupCommands h usedLinks) (getPresetByName usedLinks nm) w"

subsection \<open>A small vault to run the code on\<close>

text \<open>
  The host's \<open>normalizePath\<close> as its documentation describes it, on the code units of
  the model: every run of \<open>/\<close> and backslash becomes one \<open>/\<close>, a no-break space becomes
  a space, the slashes at both ends are dropped, and the empty path is \<open>/\<close>.
\<close>

fun collapseSeparators :: "bool \<Rightarrow> string \<Rightarrow> string" where
  "collapseSeparators prev [] = []"
| "collapseSeparators prev (c # cs) =
     (if c = CHR ''/'' \<or> c = CHR 0x5C then
        (if prev then collapseSeparators True cs else CHR ''/'' # collapseSeparators True cs)
      else (if c = CHR 0xA0 then CHR '' '' else c) # collapseSeparators False cs)"

definition hostNormalizePath :: "string \<Rightarrow> string" where
  "hostNormalizePath p =
     (let q = rev (dropWhile (\<lambda>c. c = CHR ''/'')
                (rev (dropWhile (\<lambda>c. c = CHR ''/'') (collapseSeparators False p))))
      in if q = [] then ''/'' else q)"

text \<open>
  A vault given by its notes: \<open>notes\<close> gives each note's path (without \<open>.md\<close>) and the
  targets of its wiki links, in order. A link resolves to the note of that path if
  there is one; no pattern list is consulted unless it is empty; strings compare by
  code units.
\<close>

definition baseName :: "string \<Rightarrow> string" where
  "baseName p = rev (takeWhile (\<lambda>c. c \<noteq> CHR ''/'') (rev p))"

definition noteFile :: "string \<Rightarrow> TFile" where
  "noteFile n = \<lparr>file_path = n @ ''.md'', file_name = baseName (n @ ''.md'')\<rparr>"

definition wikiLink :: "string \<Rightarrow> ReferenceCache option" where
  "wikiLink t = Some \<lparr>ref_link = Some t, ref_original = Some (''[['' @ t @ '']]'')\<rparr>"

definition compareCodeUnits :: "string \<Rightarrow> string \<Rightarrow> int" where
  "compareCodeUnits a b = (if a < b then - 1 else if a = b then 0 else 1)"

definition flatVault :: "(string \<times> string list) list \<Rightarrow> Host" where
  "flatVault notes =
     \<lparr>normalizePath = hostNormalizePath,
      getLinkpath = takeWhile (\<lambda>c. c \<noteq> CHR ''#''),
      getFirstLinkpathDest =
        (\<lambda>lnk src. if lnk \<in> set (map fst notes) then Some (noteFile lnk) else None),
      fileToLinktext = (\<lambda>t src. stripSuffix ''.md'' (file_path t)),
      regExpTest = (\<lambda>p s. None),
      picomatchIsMatch = (\<lambda>s globs. if globs = [] then Some False else None),
      localeCompare = compareCodeUnits,
      getMarkdownFiles = map (\<lambda>n. noteFile (fst n)) notes,
      getFileCache =
        (\<lambda>f. map_option (\<lambda>targets. \<lparr>links = Some (map wikiLink targets), embeds = None\<rparr>)
               (map_of (map (\<lambda>n. (fst n @ ''.md'', snd n)) notes) (file_path f)))\<rparr>"

text \<open>A preset with the defaults of the class \<open>UsedLinks\<close>.\<close>

definition newUsedLinks :: "string \<Rightarrow> UsedLinks" where
  "newUsedLinks nm =
     \<lparr>name = nm, path = ''used_links'' @ nm, strictLineBreaks = True, includeEmbeds = True,
      linkToFiles = True, nonexistentOnly = False, sortAlphabetically = False,
      excludeToFilenames = [], excludeToGlobs = [], excludeFromFilenames = [],
      excludeFromGlobs = []\<rparr>"

text \<open>
  A store that is a list of files (path and content) and never fails; a directory
  exists when a file lies in it.
\<close>

definition listStore :: "(string \<times> string) list FileStore" where
  "listStore =
     \<lparr>adapterExists =
        (\<lambda>s p. Inr (p \<in> set (map fst s) \<or> p \<in> set (map (\<lambda>e. dirPathOf (fst e)) s))),
      adapterWrite = (\<lambda>s p c. Inr ((p, c) # filter (\<lambda>e. fst e \<noteq> p) s)),
      createFolder = (\<lambda>s p. Inr s),
      vaultCreate = (\<lambda>s p c. Inr ((p, c) # s))\<rparr>"

text \<open>A note that links \<open>Zeta\<close> twice and \<open>alpha\<close> once, neither of which exists.\<close>

definition rankedNotes :: "(string \<times> string list) list" where
  "rankedNotes = [(''A'', [''Zeta'', ''alpha'', ''Zeta''])]"

text \<open>
  Two vaults with an output note in a folder: the note has a link of its own and is
  linked from the note \<open>A\<close>.
\<close>

definition onceDottedNotes :: "(string \<times> string list) list" where
  "onceDottedNotes = [(''A'', [''reports/index'']), (''reports/index'', [''Z''])]"

definition dottedNotes :: "(string \<times> string list) list" where
  "dottedNotes = [(''A'', [''reports/2024/index'']), (''reports/2024/index'', [''Z''])]"

text \<open>
  The corpus of the specification's scenarios: \<open>A\<close> links \<open>[[B]]\<close> and \<open>[[C]]\<close>, \<open>B\<close>
  links \<open>[[C]]\<close>, \<open>C\<close> links \<open>[[B]]\<close> and \<open>[[X]]\<close>, and there is no note \<open>X\<close>.
\<close>

definition scenarioNotes :: "(string \<times> string list) list" where
  "scenarioNotes = [(''A'', [''B'', ''C'']), (''B'', [''C'']), (''C'', [''B'', ''X''])]"

lemma split_not_Nil: "split sep s \<noteq> []"
  by (induction s) (auto split: list.splits)

lemma split_no_sep: "sep \<notin> set a \<Longrightarrow> split sep (a @ sep # r) = a # split sep r"
  by (induction a) (auto split: list.splits simp: split_not_Nil)

lemma split_takeWhile: "hd (split sep s) = takeWhile (\<lambda>c. c \<noteq> sep) s"
  by (induction s) (auto split: list.splits simp: split_not_Nil)

lemma split_nth1:
  "sep \<notin> set a \<Longrightarrow> split sep (a @ sep # r) ! Suc 0 = takeWhile (\<lambda>c. c \<noteq> sep) r"
  using split_takeWhile[of sep r] split_not_Nil[of sep r]
  by (simp add: split_no_sep hd_conv_nth)

lemma split_length: "sep \<notin> set a \<Longrightarrow> Suc 0 < length (split sep (a @ sep # r))"
  using split_not_Nil[of sep r] by (simp add: split_no_sep)

lemma split_hd: "sep \<notin> set a \<Longrightarrow> hd (split sep (a @ sep # r)) = a"
  by (simp add: split_no_sep)

lemmas parser_defs = extractDisplayName_def extractAlias_def cleanLink_def cleanWikiLink_def
  stripPrefix_def stripSuffix_def endsWith_def includesChar_def trim_def isWhiteSpace_def

lemmas path_defs = pathEqual_def removeDots_def hostNormalizePath_def stripPrefix_def
  replaceAllChar_def

lemmas run_defs = scanFiles_def processFile_def grabLinks_def grabLink_def isExcluded_def
  flatVault_def newUsedLinks_def noteFile_def baseName_def wikiLink_def setupCommands_def outputPathOf_def
  withMd_def endsWith_def hostNormalizePath_def initialScan_def pathEqual_def removeDots_def
  stripPrefix_def stripSuffix_def replaceAllChar_def toLowerCase_def lowerChar_def
  upperCaseUnits_def lowerCaseUnits_def
  extractDisplayName_def cleanLink_def cleanWikiLink_def includesChar_def inheritedKeys_def
  skipped_def failed_def Let_def

subsection \<open>Connected terms\<close>

lemma foldl_addAlias_set:
  "set (foldl (addAlias d) s ts) =
     set s \<union> {a. a \<noteq> [] \<and> a \<noteq> d \<and> (\<exists>t \<in> set ts. extractAlias t = Some a)}"
  by (induction ts arbitrary: s)
     (auto simp: addAlias_def Set_add_def split: option.splits if_splits)

lemma foldl_addAlias_distinct: "distinct s \<Longrightarrow> distinct (foldl (addAlias d) s ts)"
  by (induction ts arbitrary: s)
     (auto simp: addAlias_def Set_add_def split: option.splits)

lemma connectedTerms_set:
  "set (connectedTerms node) =
     {a. a \<noteq> [] \<and> (\<exists>t \<in> set (originalLinks node). extractAlias t = Some a)}
     - {displayName node}"
  by (auto simp: connectedTerms_def foldl_addAlias_set)

lemma connectedTerms_distinct: "distinct (connectedTerms node)"
  by (simp add: connectedTerms_def foldl_addAlias_distinct)

subsection \<open>Claims about the reference parser\<close>

text \<open>
  C5, as the code has it. When the cleaned token has a separator \<open>|\<close>, the display
  name is the text before the first separator, trimmed, and the alias is the text
  between the first separator and the second one (or the end of the token when there
  is no second), trimmed: \<open>split('|')\<close> splits at every separator and \<open>parts[1]\<close> is
  its second part, so what follows a second separator is dropped. An alias that is
  empty is never a connected term of any row.
\<close>

theorem C5_alias_is_second_part:
  assumes "cleanLink t = a @ CHR ''|'' # rest" and "CHR ''|'' \<notin> set a"
  shows "extractDisplayName t = trim a
         \<and> extractAlias t = Some (trim (takeWhile (\<lambda>c. c \<noteq> CHR ''|'') rest))
         \<and> [] \<notin> set (connectedTerms node)"
proof -
  have incl: "includesChar (cleanLink t) CHR ''|''"
    using assms(1) by (simp add: includesChar_def)
  have "extractDisplayName t = trim a"
    using incl assms by (simp add: extractDisplayName_def split_hd)
  moreover have "extractAlias t = Some (trim (takeWhile (\<lambda>c. c \<noteq> CHR ''|'') rest))"
    using incl assms by (simp add: extractAlias_def Let_def split_length split_nth1)
  moreover have "[] \<notin> set (connectedTerms node)"
    by (simp add: connectedTerms_set)
  ultimately show ?thesis by simp
qed

text \<open>The theorem at the token \<open>[[Target|first|second]]\<close>.\<close>

theorem C5_alias_is_second_part_witness:
  "extractDisplayName ''[[Target|first|second]]'' = ''Target''
   \<and> extractAlias ''[[Target|first|second]]'' = Some ''first''"
proof -
  have c: "cleanLink ''[[Target|first|second]]'' = ''Target'' @ CHR ''|'' # ''first|second''"
    by (simp add: parser_defs)
  have n: "CHR ''|'' \<notin> set ''Target''" by simp
  show ?thesis
    using C5_alias_is_second_part [OF c n] by (simp add: trim_def isWhiteSpace_def)
qed

text \<open>
  C5 as the specification states it fails: the alias of \<open>[[Target|first|second]]\<close> is
  not all the text after the first separator.
\<close>

theorem C5_alias_not_whole_rest:
  "extractAlias ''[[Target|first|second]]'' \<noteq> Some ''first|second''"
  by (simp add: parser_defs)

text \<open>
  C6. Parsing \<open>[[Target|alias]]\<close> yields the display name \<open>Target\<close> and the alias
  \<open>alias\<close>; parsing \<open>[[Target]]\<close> yields the display name \<open>Target\<close> and no alias
  (\<open>extractAlias\<close> returns \<open>null\<close>).
\<close>

theorem C6_alias_round_trip:
  "extractDisplayName ''[[Target|alias]]'' = ''Target''
   \<and> extractAlias ''[[Target|alias]]'' = Some ''alias''
   \<and> extractDisplayName ''[[Target]]'' = ''Target''
   \<and> extractAlias ''[[Target]]'' = None"
  by (simp add: parser_defs)

subsection \<open>Claims about path equality\<close>

lemma pathEqual_iff: "pathEqual np a b \<longleftrightarrow> removeDots (np a) = removeDots (np b)"
  by (auto simp: pathEqual_def)

text \<open>
  C7 at two pairs of paths that differ only by \<open>/./\<close> segments: with one such segment
  the paths are equal, with two they are not, because \<open>removeDots\<close> replaces the first
  \<open>/./\<close> only.
\<close>

theorem C7_second_dot_segment_kept:
  "pathEqual hostNormalizePath ''reports/./index.md'' ''reports/index.md''
   \<and> \<not> pathEqual hostNormalizePath ''reports/./2024/./index.md'' ''reports/2024/index.md''"
  by (simp add: path_defs)

subsection \<open>Claims about the rendered rows\<close>

text \<open>
  C8. The connected terms of a row contain no empty string and no duplicate, never
  the display name of the row, and are exactly the non-empty aliases extracted from
  the stored original link texts of the node, minus the display name.
\<close>

theorem C8_connected_terms:
  "[] \<notin> set (connectedTerms node)
   \<and> distinct (connectedTerms node)
   \<and> displayName node \<notin> set (connectedTerms node)
   \<and> set (connectedTerms node) =
       {a. a \<noteq> [] \<and> (\<exists>t \<in> set (originalLinks node). extractAlias t = Some a)}
       - {displayName node}"
  by (simp add: connectedTerms_distinct connectedTerms_set)

subsection \<open>Claims about single references\<close>

lemma forEachLink_append:
  "forEachLink h ge p f m (xs @ ys) =
     (case forEachLink h ge p f m xs of
        Returned m' \<Rightarrow> forEachLink h ge p f m' ys
      | Thrown e m' \<Rightarrow> Thrown e m')"
  by (induction xs arbitrary: m) (auto split: outcome.splits)

lemma grabLinks_Some: "grabLinks h ge p m f (Some ls) = forEachLink h ge p f m ls"
  by (cases ls) (simp_all add: grabLinks_def)

text \<open>
  C10. A reference that is absent, or whose \<open>link\<close> is absent or empty, leaves the map
  as it is and raises nothing, and the loop goes on: the references before and after
  it are processed as if it were not in the array.
\<close>

theorem C10_absent_reference_ignored:
  assumes "l = None \<or> (\<exists>r. l = Some r \<and> (ref_link r = None \<or> ref_link r = Some []))"
  shows "grabLink h ge p f m l = Returned m
         \<and> grabLinks h ge p m f (Some (before @ l # after))
             = grabLinks h ge p m f (Some (before @ after))"
proof -
  have step: "grabLink h ge p f m' l = Returned m'" for m'
    using assms by (auto simp: grabLink_def)
  have "forEachLink h ge p f m (before @ l # after) = forEachLink h ge p f m (before @ after)"
    by (simp add: forEachLink_append step split: outcome.splits)
  then show ?thesis
    by (simp add: step grabLinks_Some)
qed

text \<open>The theorem at a reference with an empty \<open>link\<close> between two links to \<open>X\<close>.\<close>

theorem C10_absent_reference_ignored_witness:
  "grabLink (flatVault scenarioNotes) [] (newUsedLinks ''1'') (noteFile ''A'') []
     (Some \<lparr>ref_link = Some [], ref_original = Some ''[[]]''\<rparr>) = Returned []
   \<and> grabLinks (flatVault scenarioNotes) [] (newUsedLinks ''1'') [] (noteFile ''A'')
        (Some [wikiLink ''X'', Some \<lparr>ref_link = Some [], ref_original = Some ''[[]]''\<rparr>,
               wikiLink ''X''])
      = Returned [(''x'', \<lparr>count = 2, link = ''[[X]]'', originalLinks = [''[[X]]'', ''[[X]]''],
                           displayName = ''X''\<rparr>)]"
proof -
  have a: "Some \<lparr>ref_link = Some [], ref_original = Some ''[[]]''\<rparr> = None
           \<or> (\<exists>r. Some \<lparr>ref_link = Some [], ref_original = Some ''[[]]''\<rparr> = Some r
                  \<and> (ref_link r = None \<or> ref_link r = Some []))"
    by simp
  show ?thesis
    using C10_absent_reference_ignored [OF a, of "flatVault scenarioNotes" "[]"
        "newUsedLinks ''1''" "noteFile ''A''" "[]" "[wikiLink ''X'']" "[wikiLink ''X'']"]
    by (simp add: scenarioNotes_def run_defs)
qed

text \<open>
  C2. A reference that resolves to a note is discarded, the map being left as it is,
  when \<open>nonexistentOnly\<close> is set or \<open>isExcluded\<close> excludes the note under the preset's
  to-filters. On the corpus of the scenario, a run with \<open>nonexistentOnly\<close> set yields
  exactly one entry, \<open>X\<close>, with count 1.
\<close>

theorem C2_resolved_target_discarded:
  "(ref_link r = Some raw
    \<and> getFirstLinkpathDest h (getLinkpath h raw) (file_path f) = Some t
    \<and> (nonexistentOnly p
        \<or> isExcluded h ge t (excludeToFilenames p) (excludeToGlobs p) = Inr True)
    \<longrightarrow> grabLink h ge p f m (Some r) = Returned m)
   \<and> uniqueLinks
        (scanFiles (flatVault scenarioNotes)
           (setupCommands (flatVault scenarioNotes)
              [(newUsedLinks ''1'')\<lparr>nonexistentOnly := True\<rparr>])
           ((newUsedLinks ''1'')\<lparr>nonexistentOnly := True\<rparr>))
      = [(''x'', \<lparr>count = 1, link = ''[[X]]'', originalLinks = [''[[X]]''],
                  displayName = ''X''\<rparr>)]"
proof -
  have "grabLink h ge p f m (Some r) = Returned m"
    if "ref_link r = Some raw"
       "getFirstLinkpathDest h (getLinkpath h raw) (file_path f) = Some t"
       "nonexistentOnly p
        \<or> isExcluded h ge t (excludeToFilenames p) (excludeToGlobs p) = Inr True"
    using that by (auto simp: grabLink_def Let_def)
  moreover have "uniqueLinks
        (scanFiles (flatVault scenarioNotes)
           (setupCommands (flatVault scenarioNotes)
              [(newUsedLinks ''1'')\<lparr>nonexistentOnly := True\<rparr>])
           ((newUsedLinks ''1'')\<lparr>nonexistentOnly := True\<rparr>))
      = [(''x'', \<lparr>count = 1, link = ''[[X]]'', originalLinks = [''[[X]]''],
                  displayName = ''X''\<rparr>)]"
    by (simp add: scenarioNotes_def run_defs)
  ultimately show ?thesis by blast
qed

text \<open>The theorem at the link \<open>[[B]]\<close> of the note \<open>A\<close>, with \<open>nonexistentOnly\<close> set.\<close>

theorem C2_resolved_target_discarded_witness:
  "grabLink (flatVault scenarioNotes) [] ((newUsedLinks ''1'')\<lparr>nonexistentOnly := True\<rparr>)
     (noteFile ''A'') [] (wikiLink ''B'') = Returned []"
proof -
  let ?h = "flatVault scenarioNotes"
  let ?r = "\<lparr>ref_link = Some ''B'', ref_original = Some ''[[B]]''\<rparr>"
  have hyp: "ref_link ?r = Some ''B''
    \<and> getFirstLinkpathDest ?h (getLinkpath ?h ''B'') (file_path (noteFile ''A''))
        = Some (noteFile ''B'')
    \<and> (nonexistentOnly ((newUsedLinks ''1'')\<lparr>nonexistentOnly := True\<rparr>)
        \<or> isExcluded ?h [] (noteFile ''B'')
             (excludeToFilenames ((newUsedLinks ''1'')\<lparr>nonexistentOnly := True\<rparr>))
             (excludeToGlobs ((newUsedLinks ''1'')\<lparr>nonexistentOnly := True\<rparr>)) = Inr True)"
    by (simp add: scenarioNotes_def flatVault_def noteFile_def)
  show ?thesis
    using hyp C2_resolved_target_discarded [of ?r "''B''" ?h "noteFile ''A''" "noteFile ''B''"
        "(newUsedLinks ''1'')\<lparr>nonexistentOnly := True\<rparr>" "[]" "[]"]
    by (simp add: wikiLink_def)
qed

subsection \<open>Claims about the command\<close>

lemma getPresetByName_None: "getPresetByName presets nm = None \<longleftrightarrow> nm \<notin> name ` set presets"
  by (auto simp: getPresetByName_def find_None_iff)

text \<open>
  C9. When the lookup of the requested preset yields nothing, the command only shows
  the notice: the store is as before, for every host and every file store, so nothing
  was scanned and no operation of the store was called.
\<close>

theorem C9_missing_preset_aborts:
  assumes "getPresetByName usedLinks nm = None"
  shows "runCommand h fs usedLinks nm w
           = w\<lparr>notices := notices w @ [''Preset not found. Try reloading Obsidian.'']\<rparr>
         \<and> store (runCommand h fs usedLinks nm w) = store w
         \<and> generateAllUsedLinksIndex h fs ge None w
           = w\<lparr>notices := notices w @ [''Preset not found. Try reloading Obsidian.'']\<rparr>"
  using assms by (simp add: runCommand_def generateAllUsedLinksIndex_def notify_def)

text \<open>The theorem at the settings with the one preset \<open>1\<close> and the command for \<open>2\<close>.\<close>

theorem C9_missing_preset_aborts_witness:
  "runCommand (flatVault scenarioNotes) listStore [newUsedLinks ''1''] ''2''
     \<lparr>store = [(''A.md'', ''[[B]]'')], notices = []\<rparr>
   = \<lparr>store = [(''A.md'', ''[[B]]'')],
      notices = [''Preset not found. Try reloading Obsidian.'']\<rparr>"
proof -
  have a: "getPresetByName [newUsedLinks ''1''] ''2'' = None"
    by (simp add: getPresetByName_def newUsedLinks_def)
  show ?thesis
    using C9_missing_preset_aborts [OF a, of "flatVault scenarioNotes" listStore
        "\<lparr>store = [(''A.md'', ''[[B]]'')], notices = []\<rparr>" "[]"]
    by simp
qed

subsection \<open>Claims about the order of the rows\<close>

lemma set_insertBy: "set (insertBy c x xs) = insert x (set xs)"
  by (induction xs) auto

lemma length_insertBy: "length (insertBy c x xs) = Suc (length xs)"
  by (induction xs) auto

lemma set_Array_sort: "set (Array_sort c xs) = set xs"
  by (induction xs) (auto simp: Array_sort_def set_insertBy)

lemma length_Array_sort: "length (Array_sort c xs) = length xs"
  by (induction xs) (auto simp: Array_sort_def length_insertBy)

lemma sorted_insertBy:
  assumes "consistentComparator c" and "sorted_wrt (\<lambda>a b. c a b \<le> 0) xs"
  shows "sorted_wrt (\<lambda>a b. c a b \<le> 0) (insertBy c x xs)"
  using assms(2)
proof (induction xs)
  case Nil
  then show ?case by simp
next
  case (Cons y ys)
  have trans: "c a b \<le> 0 \<Longrightarrow> c b d \<le> 0 \<Longrightarrow> c a d \<le> 0" for a b d
    using assms(1) unfolding consistentComparator_def by blast
  have total: "0 < c a b \<Longrightarrow> c b a < 0" for a b
    using assms(1) unfolding consistentComparator_def by blast
  show ?case
  proof (cases "c x y \<le> 0")
    case True
    then have "\<forall>z \<in> set (y # ys). c x z \<le> 0"
      using Cons.prems trans by auto
    then show ?thesis using True Cons.prems by simp
  next
    case False
    then have "c y x \<le> 0" using total[of x y] by simp
    then show ?thesis
      using False Cons by (auto simp: set_insertBy)
  qed
qed

lemma sorted_Array_sort:
  "consistentComparator c \<Longrightarrow> sorted_wrt (\<lambda>a b. c a b \<le> 0) (Array_sort c xs)"
  by (induction xs) (simp_all add: Array_sort_def sorted_insertBy)

lemma filter_insertBy:
  "(\<And>y. 0 < c x y \<Longrightarrow> \<not> (P x \<and> P y)) \<Longrightarrow> filter P (insertBy c x xs) = filter P (x # xs)"
  by (induction xs) auto

lemma filter_Array_sort:
  "(\<And>x y. 0 < c x y \<Longrightarrow> \<not> (P x \<and> P y)) \<Longrightarrow> filter P (Array_sort c xs) = filter P xs"
proof (induction xs)
  case Nil
  then show ?case by (simp add: Array_sort_def)
next
  case (Cons x xs)
  have "filter P (Array_sort c (x # xs)) = filter P (insertBy c x (Array_sort c xs))"
    by (simp add: Array_sort_def)
  also have "\<dots> = filter P (x # Array_sort c xs)"
    using Cons.prems by (rule filter_insertBy)
  finally show ?case using Cons by simp
qed

lemma consistent_byDisplayName:
  "consistentComparator (localeCompare h) \<Longrightarrow> consistentComparator (byDisplayName h)"
  unfolding consistentComparator_def byDisplayName_def by blast

lemma tie_classes:
  assumes "consistentComparator c" and "0 < c x y"
  shows "\<not> (c k x = 0 \<and> c k y = 0)"
proof
  assume a: "c k x = 0 \<and> c k y = 0"
  then have "c x k = 0" using assms(1) unfolding consistentComparator_def by blast
  with a have "c x y = 0" using assms(1) unfolding consistentComparator_def by blast
  with assms(2) show False by simp
qed

lemma Object_entries_plain:
  "\<forall>k \<in> fst ` set m. \<not> isArrayIndex k \<Longrightarrow> Object_entries m = m"
  by (induction m) (auto simp: Object_entries_def)

lemma set_Object_entries: "set (Object_entries m) = set m"
  by (auto simp: Object_entries_def)

lemma length_Object_entries: "length (Object_entries m) = length m"
  unfolding Object_entries_def
  by (simp add: sum_length_filter_compl)

lemma consistent_compareCodeUnits: "consistentComparator compareCodeUnits"
  unfolding consistentComparator_def compareCodeUnits_def
  by (auto split: if_splits)

lemmas index_defs = isArrayIndex_def isDigit_def numericValue_def digitValue_def
  Object_entries_def

lemmas sort_defs = sortedLinks_def Array_sort_def byCount_def byDisplayName_def
  compareCodeUnits_def

text \<open>
  Lower-casing folds the Latin-1 capitals as well as the ASCII ones and keeps the
  multiplication sign and the sharp s, so two display names that differ only in the
  case of such a letter tie under \<open>byDisplayName\<close> when \<open>localeCompare\<close> ties on equal
  strings.
\<close>

lemma toLowerCase_units:
  "toLowerCase [CHR 0xC9, CHR ''A'', CHR 0xD7, CHR 0xDF, CHR 0xDE, CHR ''z'']
     = [CHR 0xE9, CHR ''a'', CHR 0xD7, CHR 0xDF, CHR 0xFE, CHR ''z'']"
  by (simp add: toLowerCase_def lowerChar_def upperCaseUnits_def lowerCaseUnits_def)

lemma byDisplayName_folds_case:
  "byDisplayName (flatVault []) (k, n\<lparr>displayName := [CHR 0xC9]\<rparr>)
     (k', n'\<lparr>displayName := [CHR 0xE9]\<rparr>) = 0"
  by (simp add: byDisplayName_def flatVault_def compareCodeUnits_def toLowerCase_def
      lowerChar_def upperCaseUnits_def lowerCaseUnits_def)

text \<open>
  C4, as the code has it. With a consistent \<open>localeCompare\<close>: in alphabetical mode the
  rows are in non-decreasing order of the lower-cased display names under
  \<open>localeCompare\<close>, otherwise in non-increasing order of the counts; in both modes
  the rows are the entries of the map, and rows that tie keep the order in which
  \<open>Object.entries\<close> lists them, which is the order of insertion when no key of the map
  is an array index (keys that are array indices come first, in numeric order).
\<close>

theorem C4_rows_sorted_stable:
  assumes "consistentComparator (localeCompare h)"
  shows "(sortAlphabetically p \<longrightarrow>
            sorted_wrt (\<lambda>a b. byDisplayName h a b \<le> 0) (sortedLinks h p m)
            \<and> (\<forall>x. filter (\<lambda>e. byDisplayName h x e = 0) (sortedLinks h p m)
                     = filter (\<lambda>e. byDisplayName h x e = 0) (Object_entries m)))
         \<and> (\<not> sortAlphabetically p \<longrightarrow>
            sorted_wrt (\<lambda>a b. count (snd b) \<le> count (snd a)) (sortedLinks h p m)
            \<and> (\<forall>n. filter (\<lambda>e. count (snd e) = n) (sortedLinks h p m)
                     = filter (\<lambda>e. count (snd e) = n) (Object_entries m)))
         \<and> set (sortedLinks h p m) = set m
         \<and> length (sortedLinks h p m) = length m
         \<and> ((\<forall>k \<in> fst ` set m. \<not> isArrayIndex k) \<longrightarrow> Object_entries m = m)"
proof -
  have cd: "consistentComparator (byDisplayName h)"
    using assms by (rule consistent_byDisplayName)
  have cc: "consistentComparator byCount"
    unfolding consistentComparator_def byCount_def by auto
  have alpha_sorted:
    "sorted_wrt (\<lambda>a b. byDisplayName h a b \<le> 0) (Array_sort (byDisplayName h) xs)" for xs
    using cd by (rule sorted_Array_sort)
  have alpha_stable:
    "filter (\<lambda>e. byDisplayName h x e = 0) (Array_sort (byDisplayName h) xs)
       = filter (\<lambda>e. byDisplayName h x e = 0) xs" for x xs
    by (rule filter_Array_sort) (rule tie_classes [OF cd])
  have "sorted_wrt (\<lambda>a b. byCount a b \<le> 0) (Array_sort byCount xs)" for xs
    using cc by (rule sorted_Array_sort)
  then have count_sorted:
    "sorted_wrt (\<lambda>a b. count (snd b) \<le> count (snd a)) (Array_sort byCount xs)" for xs
    by (simp add: byCount_def)
  have count_stable:
    "filter (\<lambda>e. count (snd e) = n) (Array_sort byCount xs)
       = filter (\<lambda>e. count (snd e) = n) xs" for n xs
    by (rule filter_Array_sort) (simp add: byCount_def)
  show ?thesis
    by (simp add: sortedLinks_def alpha_sorted alpha_stable count_sorted count_stable
        set_Array_sort length_Array_sort set_Object_entries length_Object_entries
        Object_entries_plain)
qed

text \<open>
  The theorem at the map of a note that links \<open>Zeta\<close> twice and \<open>alpha\<close> once, in both
  modes: by count the rows are \<open>zeta\<close>, \<open>alpha\<close>; alphabetically they are \<open>alpha\<close>,
  \<open>zeta\<close>.
\<close>

theorem C4_rows_sorted_stable_witness:
  "map fst (sortedLinks (flatVault rankedNotes) (newUsedLinks ''1'')
        (uniqueLinks (scanFiles (flatVault rankedNotes) [] (newUsedLinks ''1''))))
     = [''zeta'', ''alpha'']
   \<and> sorted_wrt (\<lambda>a b. count (snd b) \<le> count (snd a))
       (sortedLinks (flatVault rankedNotes) (newUsedLinks ''1'')
          (uniqueLinks (scanFiles (flatVault rankedNotes) [] (newUsedLinks ''1''))))
   \<and> map fst (sortedLinks (flatVault rankedNotes)
        ((newUsedLinks ''1'')\<lparr>sortAlphabetically := True\<rparr>)
        (uniqueLinks (scanFiles (flatVault rankedNotes) [] (newUsedLinks ''1''))))
     = [''alpha'', ''zeta'']
   \<and> sorted_wrt (\<lambda>a b. byDisplayName (flatVault rankedNotes) a b \<le> 0)
       (sortedLinks (flatVault rankedNotes) ((newUsedLinks ''1'')\<lparr>sortAlphabetically := True\<rparr>)
          (uniqueLinks (scanFiles (flatVault rankedNotes) [] (newUsedLinks ''1''))))
   \<and> Object_entries (uniqueLinks (scanFiles (flatVault rankedNotes) [] (newUsedLinks ''1'')))
     = uniqueLinks (scanFiles (flatVault rankedNotes) [] (newUsedLinks ''1''))"
proof -
  let ?h = "flatVault rankedNotes"
  let ?p = "newUsedLinks ''1''"
  let ?q = "(newUsedLinks ''1'')\<lparr>sortAlphabetically := True\<rparr>"
  let ?m = "uniqueLinks (scanFiles ?h [] ?p)"
  have c: "consistentComparator (localeCompare ?h)"
    by (simp add: flatVault_def consistent_compareCodeUnits)
  have m: "?m = [(''zeta'', \<lparr>count = 2, link = ''[[Zeta]]'',
                             originalLinks = [''[[Zeta]]'', ''[[Zeta]]''], displayName = ''Zeta''\<rparr>),
                 (''alpha'', \<lparr>count = 1, link = ''[[alpha]]'',
                              originalLinks = [''[[alpha]]''], displayName = ''alpha''\<rparr>)]"
    by (simp add: rankedNotes_def run_defs)
  have byCount: "map fst (sortedLinks ?h ?p ?m) = [''zeta'', ''alpha'']"
    unfolding m by (simp add: sort_defs index_defs newUsedLinks_def)
  have byName: "map fst (sortedLinks ?h ?q ?m) = [''alpha'', ''zeta'']"
    unfolding m
    by (simp add: sort_defs index_defs newUsedLinks_def flatVault_def toLowerCase_def
        lowerChar_def upperCaseUnits_def lowerCaseUnits_def)
  have n: "\<not> sortAlphabetically ?p" "sortAlphabetically ?q"
    by (simp_all add: newUsedLinks_def)
  have plain: "\<forall>k \<in> fst ` set ?m. \<not> isArrayIndex k"
    unfolding m by (simp add: index_defs)
  show ?thesis
    using n plain byCount byName
      C4_rows_sorted_stable [OF c, of ?p ?m] C4_rows_sorted_stable [OF c, of ?q ?m]
    by simp
qed

text \<open>
  C4 as the specification states it fails: from the links \<open>[[b]]\<close> and \<open>[[7]]\<close> of one
  note the map gets the key \<open>b\<close> first and \<open>7\<close> second, both with count 1, and the
  row of \<open>7\<close> comes first.
\<close>

theorem C4_ties_not_in_insertion_order:
  "uniqueLinks (scanFiles (flatVault [(''A'', [''b'', ''7''])]) [] (newUsedLinks ''1''))
     = [(''b'', \<lparr>count = 1, link = ''[[b]]'', originalLinks = [''[[b]]''], displayName = ''b''\<rparr>),
        (''7'', \<lparr>count = 1, link = ''[[7]]'', originalLinks = [''[[7]]''], displayName = ''7''\<rparr>)]
   \<and> map fst (sortedLinks (flatVault [(''A'', [''b'', ''7''])]) (newUsedLinks ''1'')
        (uniqueLinks (scanFiles (flatVault [(''A'', [''b'', ''7''])]) [] (newUsedLinks ''1''))))
     = [''7'', ''b'']"
proof -
  have m: "uniqueLinks (scanFiles (flatVault [(''A'', [''b'', ''7''])]) [] (newUsedLinks ''1''))
     = [(''b'', \<lparr>count = 1, link = ''[[b]]'', originalLinks = [''[[b]]''], displayName = ''b''\<rparr>),
        (''7'', \<lparr>count = 1, link = ''[[7]]'', originalLinks = [''[[7]]''], displayName = ''7''\<rparr>)]"
    by (simp add: run_defs)
  show ?thesis
    unfolding m by (simp add: sort_defs index_defs newUsedLinks_def)
qed

subsection \<open>The callback in terms of its verdict\<close>

lemma grabLink_verdict:
  "grabLink h ge p f m l =
     (case verdict h ge p f l of
        Ignored \<Rightarrow> Returned m
      | Raises e \<Rightarrow> Thrown e m
      | Admitted k t n tgt \<Rightarrow>
          if k \<in> fst ` set m then Returned (bump k t m)
          else if k \<in> set inheritedKeys then Thrown pushOfUndefined m
          else Returned (m @ [(k, n)]))"
  unfolding grabLink_def verdict_def
  by (simp add: Let_def split: option.split sum.split bool.split)

subsection \<open>One entry per identity\<close>

lemma map_fst_bump: "map fst (bump k t m) = map fst m"
  by (induction m) auto

lemma set_fst_bump: "fst ` set (bump k t m) = fst ` set m"
  using map_fst_bump[of k t m] by (metis set_map)

lemma map_of_bump:
  "map_of (bump k t m) k' =
     (if k' = k
      then map_option (\<lambda>n. n\<lparr>count := count n + 1, originalLinks := originalLinks n @ [t]\<rparr>)
             (map_of m k)
      else map_of m k')"
  by (induction m) auto

lemma map_of_own: "k \<in> fst ` set m \<Longrightarrow> \<exists>n. map_of m k = Some n"
  by (cases "map_of m k") (simp_all add: map_of_eq_None_iff)

lemma countOf_bump:
  assumes "k \<in> fst ` set m"
  shows "countOf (bump k t m) k' = countOf m k' + (if k' = k then 1 else 0)"
proof -
  from map_of_own [OF assms] obtain n where "map_of m k = Some n" ..
  then show ?thesis
    by (simp add: countOf_def map_of_bump)
qed

lemma countOf_new:
  assumes "k \<notin> fst ` set m" and "count n = 1"
  shows "countOf (m @ [(k, n)]) k' = countOf m k' + (if k' = k then 1 else 0)"
proof -
  have "map_of m k = None"
    using assms(1) by (simp add: map_of_eq_None_iff)
  then show ?thesis
    using assms(2) by (simp add: countOf_def map_add_def split: option.splits)
qed

lemma verdict_Admitted_node:
  "verdict h ge p f l = Admitted k t n tgt \<Longrightarrow> count n = 1 \<and> originalLinks n = [t]"
  unfolding verdict_def
  by (auto simp: Let_def split: option.splits sum.splits bool.splits if_splits)

lemma tally_snoc:
  "tally h ge p (occs @ [(f, l)]) k =
     tally h ge p occs k + (if keyOf (verdict h ge p f l) = Some k then 1 else 0)"
  by (simp add: tally_def)

lemma grabLink_agrees:
  assumes "agrees h ge p m occs" and "grabLink h ge p f m l = Returned m'"
  shows "agrees h ge p m' (occs @ [(f, l)])"
proof (cases "verdict h ge p f l")
  case Ignored
  then show ?thesis
    using assms by (simp add: grabLink_verdict agrees_def tally_snoc)
next
  case (Raises e)
  then show ?thesis
    using assms by (simp add: grabLink_verdict)
next
  case (Admitted k t n tgt)
  note node = verdict_Admitted_node [OF Admitted]
  have t: "tally h ge p (occs @ [(f, l)]) k' = tally h ge p occs k' + (if k' = k then 1 else 0)"
    for k'
    by (auto simp: tally_snoc Admitted)
  show ?thesis
  proof (cases "k \<in> fst ` set m")
    case True
    then have m': "m' = bump k t m"
      using assms(2) Admitted by (simp add: grabLink_verdict)
    have "distinct (map fst m')"
      using assms(1) by (simp add: m' map_fst_bump agrees_def)
    moreover have "fst ` set m' = {k'. 0 < tally h ge p (occs @ [(f, l)]) k'}"
      using assms(1) True unfolding agrees_def m' set_fst_bump t by auto
    moreover have "countOf m' k' = tally h ge p (occs @ [(f, l)]) k'" for k'
      using assms(1) unfolding agrees_def m' t by (simp add: countOf_bump [OF True])
    ultimately show ?thesis unfolding agrees_def by blast
  next
    case False
    then have m': "m' = m @ [(k, n)]"
      using assms(2) Admitted by (simp add: grabLink_verdict split: if_splits)
    have "distinct (map fst m')"
      using assms(1) False by (simp add: m' agrees_def)
    moreover have "fst ` set m' = {k'. 0 < tally h ge p (occs @ [(f, l)]) k'}"
      using assms(1) unfolding agrees_def m' t by auto
    moreover have "countOf m' k' = tally h ge p (occs @ [(f, l)]) k'" for k'
      using assms(1) node unfolding agrees_def m' t by (simp add: countOf_new [OF False])
    ultimately show ?thesis unfolding agrees_def by blast
  qed
qed

lemma forEachLink_agrees:
  "agrees h ge p m occs \<Longrightarrow> forEachLink h ge p f m ls = Returned m'
   \<Longrightarrow> agrees h ge p m' (occs @ map (\<lambda>l. (f, l)) ls)"
proof (induction ls arbitrary: m occs)
  case Nil
  then show ?case by simp
next
  case (Cons l ls)
  from Cons.prems(2) obtain m1 where
    s1: "grabLink h ge p f m l = Returned m1" and s2: "forEachLink h ge p f m1 ls = Returned m'"
    by (auto split: outcome.splits)
  have "agrees h ge p m1 (occs @ [(f, l)])"
    using Cons.prems(1) s1 by (rule grabLink_agrees)
  from Cons.IH [OF this s2] show ?case by simp
qed

lemma processFile_map:
  "uniqueLinks (processFile h ge p (outputPathOf h p) st f) =
     (if scanned h ge p f
      then stateAfter (forEachLink h ge p f (uniqueLinks st) (referencesOf h p f))
      else uniqueLinks st)"
  by (auto simp: processFile_def scanned_def referencesOf_def grabLinks_Some
        forEachLink_append failed_def skipped_def
      split: sum.splits bool.splits option.splits outcome.splits)

lemma processFile_errorCount:
  "errorCount (processFile h ge p (outputPathOf h p) st f) =
     errorCount st +
     (if file_path f \<noteq> outputPathOf h p
         \<and> (case isExcluded h ge f (excludeFromFilenames p) (excludeFromGlobs p) of
               Inl e \<Rightarrow> True
             | Inr b \<Rightarrow> \<not> b \<and> (case forEachLink h ge p f (uniqueLinks st) (referencesOf h p f) of
                                   Thrown e m \<Rightarrow> True | Returned m \<Rightarrow> False))
      then 1 else 0)"
  by (auto simp: processFile_def scanned_def referencesOf_def grabLinks_Some
        forEachLink_append failed_def skipped_def
      split: sum.splits bool.splits option.splits outcome.splits)


lemma processFile_errorCount_mono:
  "errorCount st \<le> errorCount (processFile h ge p (outputPathOf h p) st f)"
  by (simp add: processFile_errorCount)

lemma scan_errorCount_mono:
  "errorCount st \<le> errorCount (foldl (processFile h ge p (outputPathOf h p)) st fs)"
proof (induction fs arbitrary: st)
  case Nil
  then show ?case by simp
next
  case (Cons f fs)
  have "errorCount st \<le> errorCount (processFile h ge p (outputPathOf h p) st f)"
    by (rule processFile_errorCount_mono)
  also have "\<dots> \<le> errorCount (foldl (processFile h ge p (outputPathOf h p))
      (processFile h ge p (outputPathOf h p) st f) fs)"
    by (rule Cons.IH)
  finally show ?case by simp
qed

lemma processFile_agrees:
  assumes "agrees h ge p (uniqueLinks st) occs"
    and "errorCount (processFile h ge p (outputPathOf h p) st f) = errorCount st"
  shows "agrees h ge p (uniqueLinks (processFile h ge p (outputPathOf h p) st f))
           (occs @ occurrencesIn h ge p [f])"
proof (cases "scanned h ge p f")
  case False
  then show ?thesis
    using assms(1) by (simp add: processFile_map occurrencesIn_def)
next
  case True
  then obtain m' where
    r: "forEachLink h ge p f (uniqueLinks st) (referencesOf h p f) = Returned m'"
    using assms(2)
    by (cases "forEachLink h ge p f (uniqueLinks st) (referencesOf h p f)")
       (auto simp: processFile_errorCount scanned_def)
  have "agrees h ge p m' (occs @ map (\<lambda>l. (f, l)) (referencesOf h p f))"
    using assms(1) r by (rule forEachLink_agrees)
  then show ?thesis
    using True by (simp add: processFile_map r occurrencesIn_def)
qed

lemma occurrencesIn_Cons:
  "occurrencesIn h ge p (f # fs) = occurrencesIn h ge p [f] @ occurrencesIn h ge p fs"
  by (simp add: occurrencesIn_def)

lemma scan_agrees:
  "agrees h ge p (uniqueLinks st) occs
   \<Longrightarrow> errorCount (foldl (processFile h ge p (outputPathOf h p)) st fs) = errorCount st
   \<Longrightarrow> agrees h ge p (uniqueLinks (foldl (processFile h ge p (outputPathOf h p)) st fs))
         (occs @ occurrencesIn h ge p fs)"
proof (induction fs arbitrary: st occs)
  case Nil
  then show ?case by (simp add: occurrencesIn_def)
next
  case (Cons f fs)
  let ?st = "processFile h ge p (outputPathOf h p) st f"
  have le1: "errorCount st \<le> errorCount ?st"
    by (rule processFile_errorCount_mono)
  have le2: "errorCount ?st \<le> errorCount (foldl (processFile h ge p (outputPathOf h p)) ?st fs)"
    by (rule scan_errorCount_mono)
  have e1: "errorCount ?st = errorCount st"
    using le1 le2 Cons.prems(2) by simp
  have e2: "errorCount (foldl (processFile h ge p (outputPathOf h p)) ?st fs) = errorCount ?st"
    using le1 le2 Cons.prems(2) by simp
  have "agrees h ge p (uniqueLinks ?st) (occs @ occurrencesIn h ge p [f])"
    using Cons.prems(1) e1 by (rule processFile_agrees)
  from Cons.IH [OF this e2] show ?case
    by (simp add: occurrencesIn_Cons [of h ge p f fs])
qed

lemma occurrences_eq: "occurrences h ge p = occurrencesIn h ge p (getMarkdownFiles h)"
  by (simp add: occurrences_def occurrencesIn_def)

lemma agrees_initial: "agrees h ge p [] []"
  by (simp add: agrees_def tally_def countOf_def)

lemma scanFiles_agrees:
  assumes "errorCount (scanFiles h ge p) = 0"
  shows "agrees h ge p (uniqueLinks (scanFiles h ge p)) (occurrences h ge p)"
proof -
  have "agrees h ge p (uniqueLinks initialScan) []"
    by (simp add: initialScan_def agrees_initial)
  moreover have "errorCount (foldl (processFile h ge p (outputPathOf h p)) initialScan
      (getMarkdownFiles h)) = errorCount initialScan"
    using assms by (simp add: scanFiles_def initialScan_def)
  ultimately have "agrees h ge p
      (uniqueLinks (foldl (processFile h ge p (outputPathOf h p)) initialScan (getMarkdownFiles h)))
      ([] @ occurrencesIn h ge p (getMarkdownFiles h))"
    by (rule scan_agrees)
  then show ?thesis
    by (simp add: scanFiles_def occurrences_eq)
qed

lemma tally_positive:
  "0 < tally h ge p occs k \<longleftrightarrow> (\<exists>(f, l) \<in> set occs. keyOf (verdict h ge p f l) = Some k)"
  by (auto simp: tally_def filter_empty_conv)

lemma countOf_entry: "distinct (map fst m) \<Longrightarrow> (k, n) \<in> set m \<Longrightarrow> countOf m k = count n"
  by (simp add: countOf_def)

lemma one_entry_per_identity:
  assumes "errorCount (scanFiles h ge p) = 0"
  shows "distinct (map fst (uniqueLinks (scanFiles h ge p)))
         \<and> fst ` set (uniqueLinks (scanFiles h ge p))
             = {k. \<exists>(f, l) \<in> set (occurrences h ge p). keyOf (verdict h ge p f l) = Some k}
         \<and> (\<forall>(k, n) \<in> set (uniqueLinks (scanFiles h ge p)).
               count n = tally h ge p (occurrences h ge p) k)"
proof -
  let ?m = "uniqueLinks (scanFiles h ge p)"
  have a: "agrees h ge p ?m (occurrences h ge p)"
    using assms by (rule scanFiles_agrees)
  then have d: "distinct (map fst ?m)"
    and c: "countOf ?m k = tally h ge p (occurrences h ge p) k" for k
    by (simp_all add: agrees_def)
  have "fst ` set ?m
          = {k. \<exists>(f, l) \<in> set (occurrences h ge p). keyOf (verdict h ge p f l) = Some k}"
    using a by (simp add: agrees_def tally_positive)
  moreover have "count n = tally h ge p (occurrences h ge p) k" if "(k, n) \<in> set ?m" for k n
    using countOf_entry [OF d that] c by simp
  ultimately show ?thesis
    using d by blast
qed

lemma grabLink_returns:
  assumes "\<forall>e. verdict h ge p f l \<noteq> Raises e"
    and "\<forall>k. keyOf (verdict h ge p f l) = Some k \<longrightarrow> k \<notin> set inheritedKeys"
  shows "\<exists>m'. grabLink h ge p f m l = Returned m'"
  using assms by (cases "verdict h ge p f l") (auto simp: grabLink_verdict)

lemma forEachLink_returns:
  assumes "\<forall>l \<in> set ls. (\<forall>e. verdict h ge p f l \<noteq> Raises e)
             \<and> (\<forall>k. keyOf (verdict h ge p f l) = Some k \<longrightarrow> k \<notin> set inheritedKeys)"
  shows "\<exists>m'. forEachLink h ge p f m ls = Returned m'"
  using assms
proof (induction ls arbitrary: m)
  case Nil
  then show ?case by simp
next
  case (Cons l ls)
  then obtain m1 where "grabLink h ge p f m l = Returned m1"
    using grabLink_returns [of h ge p f l m] by auto
  then show ?case using Cons by simp
qed

lemma occurrencesIn_single:
  "(f, l) \<in> set (occurrencesIn h ge p [f]) \<longleftrightarrow> scanned h ge p f \<and> l \<in> set (referencesOf h p f)"
  by (auto simp: occurrencesIn_def)

lemma scan_no_error:
  assumes "\<forall>f \<in> set fs. file_path f \<noteq> outputPathOf h p \<longrightarrow>
             (\<forall>e. isExcluded h ge f (excludeFromFilenames p) (excludeFromGlobs p) \<noteq> Inl e)"
    and "\<forall>(f, l) \<in> set (occurrencesIn h ge p fs). (\<forall>e. verdict h ge p f l \<noteq> Raises e)
             \<and> (\<forall>k. keyOf (verdict h ge p f l) = Some k \<longrightarrow> k \<notin> set inheritedKeys)"
  shows "errorCount (foldl (processFile h ge p (outputPathOf h p)) st fs) = errorCount st"
  using assms
proof (induction fs arbitrary: st)
  case Nil
  then show ?case by simp
next
  case (Cons f fs)
  have occ: "set (occurrencesIn h ge p (f # fs))
               = set (occurrencesIn h ge p [f]) \<union> set (occurrencesIn h ge p fs)"
    by (simp add: occurrencesIn_Cons [of h ge p f fs])
  have ok: "\<forall>l \<in> set (referencesOf h p f). scanned h ge p f \<longrightarrow>
              (\<forall>e. verdict h ge p f l \<noteq> Raises e)
              \<and> (\<forall>k. keyOf (verdict h ge p f l) = Some k \<longrightarrow> k \<notin> set inheritedKeys)"
  proof (intro ballI impI)
    fix l
    assume "l \<in> set (referencesOf h p f)" and "scanned h ge p f"
    then have "(f, l) \<in> set (occurrencesIn h ge p (f # fs))"
      unfolding occ by (simp add: occurrencesIn_single)
    with Cons.prems(2)
    show "(\<forall>e. verdict h ge p f l \<noteq> Raises e)
          \<and> (\<forall>k. keyOf (verdict h ge p f l) = Some k \<longrightarrow> k \<notin> set inheritedKeys)"
      by blast
  qed
  have here: "errorCount (processFile h ge p (outputPathOf h p) st f) = errorCount st"
  proof (cases "scanned h ge p f")
    case True
    then obtain m' where
      "forEachLink h ge p f (uniqueLinks st) (referencesOf h p f) = Returned m'"
      using forEachLink_returns [of "referencesOf h p f" h ge p f "uniqueLinks st"] ok by auto
    then show ?thesis
      using True by (simp add: processFile_errorCount scanned_def)
  next
    case False
    then show ?thesis
      using Cons.prems(1)
      by (auto simp: processFile_errorCount scanned_def split: sum.splits)
  qed
  have "errorCount (foldl (processFile h ge p (outputPathOf h p))
          (processFile h ge p (outputPathOf h p) st f) fs)
        = errorCount (processFile h ge p (outputPathOf h p) st f)"
    using Cons.prems unfolding occ by (intro Cons.IH) auto
  then show ?case using here by simp
qed

lemma scanFiles_no_error:
  assumes "\<forall>f \<in> set (getMarkdownFiles h). file_path f \<noteq> outputPathOf h p \<longrightarrow>
             (\<forall>e. isExcluded h ge f (excludeFromFilenames p) (excludeFromGlobs p) \<noteq> Inl e)"
    and "\<forall>(f, l) \<in> set (occurrences h ge p). (\<forall>e. verdict h ge p f l \<noteq> Raises e)
             \<and> (\<forall>k. keyOf (verdict h ge p f l) = Some k \<longrightarrow> k \<notin> set inheritedKeys)"
  shows "errorCount (scanFiles h ge p) = 0"
  using scan_no_error [of "getMarkdownFiles h" h p ge initialScan] assms
  by (simp add: scanFiles_def occurrences_eq initialScan_def)

lemma one_entry_per_identity_corpus:
  assumes "\<forall>f \<in> set (getMarkdownFiles h). file_path f \<noteq> outputPathOf h p \<longrightarrow>
             (\<forall>e. isExcluded h ge f (excludeFromFilenames p) (excludeFromGlobs p) \<noteq> Inl e)"
    and "\<forall>(f, l) \<in> set (occurrences h ge p). (\<forall>e. verdict h ge p f l \<noteq> Raises e)
             \<and> (\<forall>k. keyOf (verdict h ge p f l) = Some k \<longrightarrow> k \<notin> set inheritedKeys)"
  shows "distinct (map fst (uniqueLinks (scanFiles h ge p)))
         \<and> fst ` set (uniqueLinks (scanFiles h ge p))
             = {k. \<exists>(f, l) \<in> set (occurrences h ge p). keyOf (verdict h ge p f l) = Some k}
         \<and> (\<forall>(k, n) \<in> set (uniqueLinks (scanFiles h ge p)).
               count n = tally h ge p (occurrences h ge p) k)"
  by (rule one_entry_per_identity) (rule scanFiles_no_error [OF assms])

text \<open>
  C1 at a note with the two links \<open>[[constructor]]\<close> and \<open>[[X]]\<close>, neither of which
  resolves. Both references are admitted, with the identities \<open>constructor\<close> and \<open>x\<close>;
  \<open>uniqueLinks['constructor']\<close> is the inherited \<open>Object\<close>, so the callback throws,
  the file is counted as an error, and the map stays empty.
\<close>

theorem C1_inherited_key_no_entry:
  "map (\<lambda>(f, l). keyOf (verdict (flatVault [(''A'', [''constructor'', ''X''])]) []
                          (newUsedLinks ''1'') f l))
     (occurrences (flatVault [(''A'', [''constructor'', ''X''])]) [] (newUsedLinks ''1''))
     = [Some ''constructor'', Some ''x'']
   \<and> scanFiles (flatVault [(''A'', [''constructor'', ''X''])]) [] (newUsedLinks ''1'')
     = \<lparr>uniqueLinks = [], processedCount = 0, skippedCount = 0, errorCount = 1\<rparr>"
  by (simp add: occurrences_def scanned_def referencesOf_def verdict_def run_defs)

subsection \<open>Claims about the output notes\<close>

lemma someRegExp_cache: "someRegExp (h\<lparr>getFileCache := c\<rparr>) ps s = someRegExp h ps s"
  by (induction ps) (auto split: option.splits bool.splits)

lemma isExcluded_cache: "isExcluded (h\<lparr>getFileCache := c\<rparr>) ge f fp gp = isExcluded h ge f fp gp"
  by (simp add: isExcluded_def someRegExp_cache cong: sum.case_cong option.case_cong)

lemma grabLink_cache: "grabLink (h\<lparr>getFileCache := c\<rparr>) ge p f m l = grabLink h ge p f m l"
  by (simp add: grabLink_def isExcluded_cache Let_def
      cong: sum.case_cong option.case_cong bool.case_cong if_cong)

lemma forEachLink_cache:
  "forEachLink (h\<lparr>getFileCache := c\<rparr>) ge p f m ls = forEachLink h ge p f m ls"
  by (induction ls arbitrary: m) (simp_all add: grabLink_cache split: outcome.splits)

lemma grabLinks_cache: "grabLinks (h\<lparr>getFileCache := c\<rparr>) ge p m f ls = grabLinks h ge p m f ls"
  by (simp add: grabLinks_def forEachLink_cache split: option.splits)

lemma globallyExcluded_member: "x \<in> set ge \<Longrightarrow> globallyExcluded h ge x"
  by (auto simp: globallyExcluded_def list_ex_iff pathEqual_def)

lemma globallyExcluded_output:
  "q \<in> set usedLinks \<Longrightarrow> globallyExcluded h (setupCommands h usedLinks) (outputPathOf h q)"
  by (rule globallyExcluded_member) (auto simp: setupCommands_def outputPathOf_def)

lemma isExcluded_global:
  "globallyExcluded h ge (file_path t) \<Longrightarrow> isExcluded h ge t fp gp \<noteq> Inr False"
  by (auto simp: isExcluded_def globallyExcluded_def split: sum.splits option.splits)

lemma processFile_cache:
  assumes "file_path f \<noteq> op \<and> \<not> globallyExcluded h ge (file_path f) \<longrightarrow> c f = getFileCache h f"
  shows "processFile (h\<lparr>getFileCache := c\<rparr>) ge p op st f = processFile h ge p op st f"
proof (cases "file_path f \<noteq> op \<and> \<not> globallyExcluded h ge (file_path f)")
  case True
  then have "c f = getFileCache h f" using assms by simp
  then show ?thesis
    by (simp add: processFile_def isExcluded_cache grabLinks_cache
        cong: sum.case_cong option.case_cong bool.case_cong outcome.case_cong if_cong)
next
  case False
  then have "file_path f = op
     \<or> isExcluded h ge f (excludeFromFilenames p) (excludeFromGlobs p) \<noteq> Inr False"
    using isExcluded_global by blast
  then show ?thesis
    by (auto simp: processFile_def isExcluded_cache split: sum.splits bool.splits)
qed

lemma scan_cache:
  assumes "\<forall>f. file_path f \<noteq> op \<and> \<not> globallyExcluded h ge (file_path f)
             \<longrightarrow> c f = getFileCache h f"
  shows "foldl (processFile (h\<lparr>getFileCache := c\<rparr>) ge p op) st fs
           = foldl (processFile h ge p op) st fs"
  using assms by (induction fs arbitrary: st) (simp_all add: processFile_cache)

lemma scanFiles_cache:
  assumes "\<forall>f. file_path f \<noteq> outputPathOf h p \<and> \<not> globallyExcluded h ge (file_path f)
             \<longrightarrow> c f = getFileCache h f"
  shows "scanFiles (h\<lparr>getFileCache := c\<rparr>) ge p = scanFiles h ge p"
  using scan_cache [OF assms] by (simp add: scanFiles_def outputPathOf_def)

lemma verdict_target:
  assumes "verdict h ge p f l = Admitted k t n (Some tf)"
  shows "\<not> globallyExcluded h ge (file_path tf)"
proof
  assume "globallyExcluded h ge (file_path tf)"
  then have "isExcluded h ge tf (excludeToFilenames p) (excludeToGlobs p) \<noteq> Inr False"
    by (rule isExcluded_global)
  then show False
    using assms unfolding verdict_def
    by (auto simp: Let_def split: option.splits sum.splits bool.splits if_splits)
qed

lemma scanned_not_excluded: "scanned h ge p f \<Longrightarrow> \<not> globallyExcluded h ge (file_path f)"
  using isExcluded_global by (auto simp: scanned_def)

lemma verdict_resolves:
  assumes "ref_link r = Some raw"
    and "getFirstLinkpathDest h (getLinkpath h raw) (file_path f) = Some tf"
    and "verdict h ge p f (Some r) = Admitted k t n tgt"
  shows "tgt = Some tf"
  using assms unfolding verdict_def
  by (auto simp: Let_def split: option.splits sum.splits bool.splits if_splits)

lemma grabLink_excluded_target:
  assumes "ref_link r = Some raw"
    and "getFirstLinkpathDest h (getLinkpath h raw) (file_path f) = Some tf"
    and "globallyExcluded h ge (file_path tf)"
  shows "stateAfter (grabLink h ge p f m (Some r)) = m"
proof (cases "verdict h ge p f (Some r)")
  case Ignored
  then show ?thesis by (simp add: grabLink_verdict)
next
  case (Raises e)
  then show ?thesis by (simp add: grabLink_verdict)
next
  case (Admitted k t n tgt)
  then have "tgt = Some tf"
    using assms(1,2) by (simp add: verdict_resolves)
  then have "\<not> globallyExcluded h ge (file_path tf)"
    using Admitted verdict_target by blast
  then show ?thesis using assms(3) by simp
qed

lemma set_bump:
  "(k', n') \<in> set (bump k t m) \<Longrightarrow>
     (k', n') \<in> set m
     \<or> (k' = k \<and> (\<exists>n. (k, n) \<in> set m
          \<and> n' = n\<lparr>count := count n + 1, originalLinks := originalLinks n @ [t]\<rparr>))"
  by (induction m) (auto split: if_splits)

lemma provenance_bump:
  assumes "provenance Q m" and "Q k t"
  shows "provenance Q (bump k t m)"
  unfolding provenance_def
proof (intro ballI, clarify)
  fix k' n'
  assume "(k', n') \<in> set (bump k t m)"
  then consider "(k', n') \<in> set m"
    | n where "k' = k" "(k, n) \<in> set m"
        "n' = n\<lparr>count := count n + 1, originalLinks := originalLinks n @ [t]\<rparr>"
    using set_bump by blast
  then show "count n' = length (originalLinks n') \<and> (\<forall>t \<in> set (originalLinks n'). Q k' t)"
  proof cases
    case 1
    then show ?thesis using assms(1) unfolding provenance_def by blast
  next
    case 2
    then have "count n = length (originalLinks n) \<and> (\<forall>t \<in> set (originalLinks n). Q k t)"
      using assms(1) unfolding provenance_def by blast
    then show ?thesis using 2 assms(2) by auto
  qed
qed

lemma provenance_new:
  "provenance Q m \<Longrightarrow> Q k t \<Longrightarrow> count n = 1 \<and> originalLinks n = [t]
   \<Longrightarrow> provenance Q (m @ [(k, n)])"
  unfolding provenance_def by auto

lemma grabLink_provenance:
  assumes "provenance Q m"
    and "\<And>k t n tgt. verdict h ge p f l = Admitted k t n tgt \<Longrightarrow> Q k t"
  shows "provenance Q (stateAfter (grabLink h ge p f m l))"
proof (cases "verdict h ge p f l")
  case Ignored
  then show ?thesis using assms(1) by (simp add: grabLink_verdict)
next
  case (Raises e)
  then show ?thesis using assms(1) by (simp add: grabLink_verdict)
next
  case (Admitted k t n tgt)
  have q: "Q k t" using Admitted by (rule assms(2))
  show ?thesis
    using assms(1) q verdict_Admitted_node [OF Admitted]
    by (simp add: grabLink_verdict Admitted provenance_bump provenance_new)
qed

lemma forEachLink_provenance:
  "provenance Q m
   \<Longrightarrow> (\<And>l k t n tgt. l \<in> set ls \<Longrightarrow> verdict h ge p f l = Admitted k t n tgt \<Longrightarrow> Q k t)
   \<Longrightarrow> provenance Q (stateAfter (forEachLink h ge p f m ls))"
proof (induction ls arbitrary: m)
  case Nil
  then show ?case by simp
next
  case (Cons l ls)
  have step: "provenance Q (stateAfter (grabLink h ge p f m l))"
    using Cons.prems(1) by (rule grabLink_provenance) (rule Cons.prems(2), simp_all)
  show ?case
  proof (cases "grabLink h ge p f m l")
    case (Returned m1)
    then have "provenance Q m1" using step by simp
    then have "provenance Q (stateAfter (forEachLink h ge p f m1 ls))"
      by (rule Cons.IH) (rule Cons.prems(2), simp_all)
    then show ?thesis using Returned by simp
  next
    case (Thrown e m1)
    then show ?thesis using step by simp
  qed
qed

lemma processFile_provenance:
  assumes "provenance (admittedFrom h ge p) (uniqueLinks st)" and "f \<in> set (getMarkdownFiles h)"
  shows "provenance (admittedFrom h ge p)
           (uniqueLinks (processFile h ge p (outputPathOf h p) st f))"
proof (cases "scanned h ge p f")
  case False
  then show ?thesis using assms(1) by (simp add: processFile_map)
next
  case True
  have "provenance (admittedFrom h ge p)
          (stateAfter (forEachLink h ge p f (uniqueLinks st) (referencesOf h p f)))"
    using assms(1)
  proof (rule forEachLink_provenance)
    fix l k t n tgt
    assume l: "l \<in> set (referencesOf h p f)" and v: "verdict h ge p f l = Admitted k t n tgt"
    have "case tgt of None \<Rightarrow> True | Some tf \<Rightarrow> \<not> globallyExcluded h ge (file_path tf)"
      using v verdict_target by (cases tgt) auto
    then show "admittedFrom h ge p k t"
      unfolding admittedFrom_def using assms(2) l v True scanned_not_excluded [OF True]
      by (auto simp: scanned_def)
  qed
  then show ?thesis using True by (simp add: processFile_map)
qed

lemma scan_provenance:
  "provenance (admittedFrom h ge p) (uniqueLinks st) \<Longrightarrow> set fs \<subseteq> set (getMarkdownFiles h)
   \<Longrightarrow> provenance (admittedFrom h ge p)
         (uniqueLinks (foldl (processFile h ge p (outputPathOf h p)) st fs))"
  by (induction fs arbitrary: st) (simp_all add: processFile_provenance)

lemma scanFiles_provenance:
  "provenance (admittedFrom h ge p) (uniqueLinks (scanFiles h ge p))"
  unfolding scanFiles_def
  by (rule scan_provenance) (simp_all add: initialScan_def provenance_def)


text \<open>
  What the code does exclude. (1) The scan does not depend on what the cache holds for a
  file whose path is the output path of the current preset or is \<open>pathEqual\<close> to an
  entry of \<open>globalExcludes\<close>. (2) A reference that resolves to such a globally excluded
  note leaves the map as it is. (3) In the final map every node counts its stored texts,
  and every stored text comes from a reference of a listed file that is neither the
  output note nor globally excluded, admitted with the key of the node, whose target,
  if it resolves, is not globally excluded. (4) The normalised output path of every
  configured preset is globally excluded.
\<close>

lemma excluded_notes_never_counted:
  "((\<forall>f. file_path f \<noteq> outputPathOf h p \<and> \<not> globallyExcluded h ge (file_path f)
          \<longrightarrow> cache f = getFileCache h f)
      \<longrightarrow> scanFiles (h\<lparr>getFileCache := cache\<rparr>) ge p = scanFiles h ge p)
   \<and> (ref_link r = Some raw
       \<and> getFirstLinkpathDest h (getLinkpath h raw) (file_path f) = Some tf
       \<and> globallyExcluded h ge (file_path tf)
      \<longrightarrow> stateAfter (grabLink h ge p f m (Some r)) = m)
   \<and> provenance (admittedFrom h ge p) (uniqueLinks (scanFiles h ge p))
   \<and> (q \<in> set usedLinks
      \<longrightarrow> globallyExcluded h (setupCommands h usedLinks) (outputPathOf h q))"
  by (simp add: scanFiles_cache grabLink_excluded_target scanFiles_provenance
      globallyExcluded_output)

text \<open>
  C3 at two presets whose output path was typed with \<open>/./\<close> segments, the output note
  lying in the vault under the path without them, with a link \<open>[[Z]]\<close> of its own and
  linked from the note \<open>A\<close>. With one such segment (\<open>reports/./index\<close>) the note is
  skipped and the link to it is dropped: the map is empty. With two
  (\<open>reports/./2024/./index\<close>) \<open>pathEqual\<close> does not equate the two paths, as
  \<open>removeDots\<close> replaces the first \<open>/./\<close> only: the output note is scanned, so its
  link \<open>[[Z]]\<close> is counted, and it is counted as the target of the link from \<open>A\<close>.
\<close>

theorem C3_dotted_output_path_counted:
  "scanFiles (flatVault onceDottedNotes)
     (setupCommands (flatVault onceDottedNotes) [(newUsedLinks ''1'')\<lparr>path := ''reports/./index''\<rparr>])
     ((newUsedLinks ''1'')\<lparr>path := ''reports/./index''\<rparr>)
     = \<lparr>uniqueLinks = [], processedCount = 1, skippedCount = 1, errorCount = 0\<rparr>
   \<and> scanFiles (flatVault dottedNotes)
     (setupCommands (flatVault dottedNotes)
        [(newUsedLinks ''1'')\<lparr>path := ''reports/./2024/./index''\<rparr>])
     ((newUsedLinks ''1'')\<lparr>path := ''reports/./2024/./index''\<rparr>)
     = \<lparr>uniqueLinks =
          [(''reports/2024/index.md'',
            \<lparr>count = 1, link = ''[[reports/2024/index]]'',
             originalLinks = [''[[reports/2024/index]]''], displayName = ''reports/2024/index''\<rparr>),
           (''z'', \<lparr>count = 1, link = ''[[Z]]'', originalLinks = [''[[Z]]''],
                    displayName = ''Z''\<rparr>)],
        processedCount = 2, skippedCount = 0, errorCount = 0\<rparr>"
  by (simp add: onceDottedNotes_def dottedNotes_def run_defs)

end
